theory Spec2Isabelle
  imports Main
begin

section \<open>JavaScript values\<close>

text \<open>
  Data that crosses the message channel (structured-clone data): \<open>undefined\<close>, \<open>null\<close>,
  booleans, integer-valued numbers, strings and plain objects, the latter as association
  lists of own properties.
\<close>

datatype jsval =
    JUndefined
  | JNull
  | JBool bool
  | JNum int
  | JStr string
  | JObj "(string \<times> jsval) list"

text \<open>What a \<open>throw\<close> carries: a \<open>TypeError\<close> of the runtime, \<open>new Error(v)\<close>, or a bare value.\<close>

datatype thrown = TypeError | ErrorObj jsval | Raw jsval

text \<open>\<open>v.k\<close>: reading a property of \<open>undefined\<close> or \<open>null\<close> throws; primitives have none of the
  properties read by this program.\<close>

fun getprop :: "jsval \<Rightarrow> string \<Rightarrow> thrown + jsval" where
  "getprop JUndefined k = Inl TypeError"
| "getprop JNull k = Inl TypeError"
| "getprop (JObj kvs) k = Inr (case map_of kvs k of None \<Rightarrow> JUndefined | Some v \<Rightarrow> v)"
| "getprop v k = Inr JUndefined"

text \<open>\<open>v?.k\<close>: optional chaining yields \<open>undefined\<close> on \<open>undefined\<close> and \<open>null\<close>.\<close>

fun optprop :: "jsval \<Rightarrow> string \<Rightarrow> jsval" where
  "optprop (JObj kvs) k = (case map_of kvs k of None \<Rightarrow> JUndefined | Some v \<Rightarrow> v)"
| "optprop v k = JUndefined"

fun truthy :: "jsval \<Rightarrow> bool" where
  "truthy JUndefined = False"
| "truthy JNull = False"
| "truthy (JBool b) = b"
| "truthy (JNum n) = (n \<noteq> 0)"
| "truthy (JStr s) = (s \<noteq> [])"
| "truthy (JObj kvs) = True"

section \<open>Callbacks of the embedding application\<close>

text \<open>
  Listeners and the lifecycle methods of the application shell are code of the embedding
  application. A callback is identified by a number; what it does when called is given by
  a \<open>behaviour\<close>, which may depend on every callback invocation made so far. A callback
  either returns (a plain value or a promise) or throws. Callbacks do not call back into
  the objects modelled here while they run.
\<close>

record Intent =
  applicationId :: jsval
  action :: jsval
  params :: jsval

datatype arg = AVal jsval | AIntent Intent

datatype retval = Plain jsval | Fulfilled jsval | RejectedWith thrown

datatype outcome = Returns retval | Throws thrown

datatype lifecycle = OnCreate | OnNewIntent | OnUpdateRouterContext

datatype callee = Listener nat | Shell nat lifecycle

type_synonym call = "callee \<times> arg list"

type_synonym behaviour = "call list \<Rightarrow> callee \<Rightarrow> arg list \<Rightarrow> outcome"

section \<open>EventEmitter\<close>

record listener =
  callback :: "nat option"
  once :: bool

text \<open>\<open>#events\<close>, an object used as a dictionary from event names to lists of listeners. An
  event name is the key of an own property here: the names of members the object inherits
  from its prototype, under which \<open>addEventListener\<close> creates no entry, are not part of the
  model of the emitter.\<close>

type_synonym events = "string \<rightharpoonup> listener list"

text \<open>\<open>this.#events[eventName] || []\<close>\<close>

definition listeners_of :: "events \<Rightarrow> string \<Rightarrow> listener list" where
  "listeners_of evs eventName = (case evs eventName of None \<Rightarrow> [] | Some ls \<Rightarrow> ls)"

definition addEventListener :: "string \<Rightarrow> nat option \<Rightarrow> bool \<Rightarrow> events \<Rightarrow> events" where
  "addEventListener eventName cb once_flag evs =
     evs(eventName \<mapsto> listeners_of evs eventName @ [\<lparr>callback = cb, once = once_flag\<rparr>])"

text \<open>
  \<open>removeEventListener(eventName = false, callback = false)\<close>: a missing or empty name
  clears every list, a missing callback empties the list of the name, otherwise the entries
  with that callback are spliced out of the list (an absent list stays absent).
\<close>

definition removeEventListener :: "string option \<Rightarrow> nat option \<Rightarrow> events \<Rightarrow> events" where
  "removeEventListener eventName cb evs =
     (case eventName of
        None \<Rightarrow> Map.empty
      | Some n \<Rightarrow>
          if n = [] then Map.empty
          else (case cb of
                  None \<Rightarrow> evs(n \<mapsto> [])
                | Some c \<Rightarrow>
                    (case evs n of
                       None \<Rightarrow> evs
                     | Some ls \<Rightarrow> evs(n \<mapsto> filter (\<lambda>l. callback l \<noteq> Some c) ls))))"

text \<open>
  The listener loop of \<open>emit\<close>. Arguments: the parameters passed to each listener, the
  listeners from index \<open>i\<close> on, \<open>onceListeners\<close>, \<open>lastValue\<close>, \<open>returnValue\<close> and the
  invocations so far. It returns the loop's result (a throw of a listener ends it), the
  listeners as the loop left them (an entry without callback has its \<open>once\<close> set) and the
  invocations made. The loop runs over the length the list has at its start, and no
  callback changes the list while it runs, so every \<open>listeners[i]\<close> it reads is an entry: the
  branch for \<open>listener === undefined\<close> is never taken.
\<close>

fun dispatch :: "behaviour \<Rightarrow> arg list \<Rightarrow> listener list \<Rightarrow> nat \<Rightarrow> nat list \<Rightarrow> retval \<Rightarrow> retval
    \<Rightarrow> call list \<Rightarrow> (thrown + nat list \<times> retval) \<times> listener list \<times> call list" where
  "dispatch beh ps [] i onceListeners lastValue returnValue tr =
     (Inr (onceListeners, returnValue), [], tr)"
| "dispatch beh ps (l # ls) i onceListeners lastValue returnValue tr =
     (case callback l of
        Some c \<Rightarrow>
          (case beh tr (Listener c) ps of
             Throws e \<Rightarrow> (Inl e, l # ls, tr @ [(Listener c, ps)])
           | Returns v \<Rightarrow>
               (case dispatch beh ps ls (Suc i)
                       (if once l then onceListeners @ [i] else onceListeners)
                       v
                       (if v \<noteq> Plain JUndefined then v else returnValue)
                       (tr @ [(Listener c, ps)]) of
                  (r, ls', tr') \<Rightarrow> (r, l # ls', tr')))
      | None \<Rightarrow>
          (case dispatch beh ps ls (Suc i)
                  (onceListeners @ [i])
                  lastValue
                  (if lastValue \<noteq> Plain JUndefined then lastValue else returnValue)
                  tr of
             (r, ls', tr') \<Rightarrow> (r, l\<lparr>once := True\<rparr> # ls', tr')))"

text \<open>\<open>for (i = onceListeners.length - 1; i >= 0; i--) listeners.splice(onceListeners[i], 1)\<close>\<close>

definition splice1 :: "nat \<Rightarrow> 'a list \<Rightarrow> 'a list" where
  "splice1 i xs = take i xs @ drop (Suc i) xs"

definition splice_once :: "nat list \<Rightarrow> 'a list \<Rightarrow> 'a list" where
  "splice_once onceListeners xs = foldr splice1 onceListeners xs"

text \<open>
  One pass of \<open>emit\<close> over the listeners of a name: the loop, then the removal of the
  one-shot entries. The list is changed in place, so an absent list (the loop ran over a
  fresh empty array) stays absent, and a throw leaves the one-shot entries in the list.
\<close>

definition emit_pass :: "behaviour \<Rightarrow> string \<Rightarrow> arg list \<Rightarrow> events \<times> call list
    \<Rightarrow> (thrown + retval) \<times> events \<times> call list" where
  "emit_pass beh eventName ps st =
     (case st of (evs, tr) \<Rightarrow>
       (case evs eventName of
          None \<Rightarrow> (Inr (Plain JUndefined), evs, tr)
        | Some listeners \<Rightarrow>
            (case dispatch beh ps listeners 0 [] (Plain JUndefined) (Plain JUndefined) tr of
               (Inl e, ls', tr') \<Rightarrow> (Inl e, evs(eventName \<mapsto> ls'), tr')
             | (Inr (onceListeners, returnValue), ls', tr') \<Rightarrow>
                 (Inr returnValue, evs(eventName \<mapsto> splice_once onceListeners ls'), tr'))))"

definition specialEvent :: "string \<Rightarrow> bool" where
  "specialEvent eventName = (eventName \<in> set [''__before__'', ''__after__''])"

text \<open>
  \<open>emit(eventName, ...parameters)\<close>: unless the name is one of the two meta-events, the
  pass is wrapped in \<open>emit('__before__', eventName, ...parameters)\<close> and
  \<open>emit('__after__', eventName, ...parameters)\<close>, which are passes themselves.
\<close>

definition emit :: "behaviour \<Rightarrow> string \<Rightarrow> arg list \<Rightarrow> events \<times> call list
    \<Rightarrow> (thrown + retval) \<times> events \<times> call list" where
  "emit beh eventName ps st =
     (if specialEvent eventName then emit_pass beh eventName ps st
      else
        (case emit_pass beh ''__before__'' (AVal (JStr eventName) # ps) st of
           (Inl e, st1) \<Rightarrow> (Inl e, st1)
         | (Inr b, st1) \<Rightarrow>
             (case emit_pass beh eventName ps st1 of
                (Inl e, st2) \<Rightarrow> (Inl e, st2)
              | (Inr returnValue, st2) \<Rightarrow>
                  (case emit_pass beh ''__after__'' (AVal (JStr eventName) # ps) st2 of
                     (Inl e, st3) \<Rightarrow> (Inl e, st3)
                   | (Inr a, st3) \<Rightarrow> (Inr returnValue, st3)))))"

section \<open>The state of the client and of its environment\<close>

text \<open>The captured host: \<open>{id, source, origin}\<close>; every field is \<open>undefined\<close> before the first
  readiness message. A window is identified by a number; \<open>None\<close> is \<open>undefined\<close> or \<open>null\<close>.\<close>

record endpoint =
  ep_id :: jsval
  ep_source :: "nat option"
  ep_origin :: "string option"

text \<open>A \<open>message\<close> event as the handler reads it.\<close>

record message_event =
  ev_data :: jsval
  ev_source :: "nat option"
  ev_origin :: string

text \<open>What a promise settles with: data, an \<open>APIPointer\<close> (by its place in the heap), or a
  rejection reason.\<close>

datatype settlement = Resolved jsval | ResolvedPointer nat | Rejected thrown

text \<open>An argument of a call that may also be a function: the only function passed around is
  the closure of \<open>getApi\<close> that forwards to \<open>#onApiRunRequest\<close>.\<close>

datatype jsarg = Val jsval | RunRequestClosure

record APIPointer =
  apiName :: jsval
  version :: jsval
  guid :: jsval
  runRequest :: jsarg
  apiCalls :: "string \<rightharpoonup> nat"
  pointer_events :: events

text \<open>An entry of \<open>#requests\<close>: a deferred (by its promise) or an \<open>APIPointer\<close>.\<close>

datatype waiter = Deferred nat | Pointer nat

text \<open>
  \<open>#requests\<close> and \<open>#apiCalls\<close> are \<open>new Map()\<close> objects that the code reads and writes as
  \<open>table[key]\<close>. The entries are own properties; a read of a key that is no own property goes
  on to the members a \<open>Map\<close> inherits from \<open>Map.prototype\<close> and \<open>Object.prototype\<close>. Those
  listed here are functions or objects, hence truthy, and have none of the methods
  \<open>resolve\<close>, \<open>reject\<close>, \<open>postRunResult\<close>. (The inherited \<open>size\<close> reads as 0, which is falsy as a
  missing property is, since the entries are not elements of the map.) The code writes and
  deletes own properties only: the keys it writes are results of \<open>nextId()\<close>.
\<close>

definition Map_members :: "string list" where
  "Map_members =
     [''constructor'', ''get'', ''set'', ''has'', ''delete'', ''clear'', ''entries'', ''forEach'',
      ''keys'', ''values'', ''__proto__'', ''hasOwnProperty'', ''isPrototypeOf'',
      ''propertyIsEnumerable'', ''toLocaleString'', ''toString'', ''valueOf'',
      ''__defineGetter__'', ''__defineSetter__'', ''__lookupGetter__'', ''__lookupSetter__'']"

text \<open>What \<open>table[key]\<close> yields: an entry, an inherited member, or a falsy value.\<close>

datatype 'a found = Own 'a | Inherited | Missing

definition lookup :: "(string \<rightharpoonup> 'a) \<Rightarrow> string \<Rightarrow> 'a found" where
  "lookup table key =
     (case table key of
        Some v \<Rightarrow> Own v
      | None \<Rightarrow> if key \<in> set Map_members then Inherited else Missing)"

datatype diag = ConsoleLog string jsval | ConsoleError string jsval | ConsoleErrorThrown thrown

text \<open>The code to run when an awaited promise settles: the rest of \<open>getApi\<close> after its
  \<open>await\<close>, with the locals \<open>apiName\<close> and \<open>guid\<close> and the promise \<open>getApi\<close> returned.\<close>

datatype continuation = GetApiRest jsval jsval nat

record api_state =
  eventEmitter :: events
  valuApplication :: endpoint
  requests :: "string \<rightharpoonup> waiter"
  lastIntent :: "Intent option"
  applicationInstance :: "nat option"
  promises :: "settlement option list"
  pointers :: "APIPointer list"
  awaiting :: "(nat \<times> continuation) list"
  id_counter :: nat
  guid_counter :: nat
  outbox :: "(nat \<times> string option \<times> jsval) list"
  console :: "diag list"
  calls :: "call list"

text \<open>A freshly constructed \<open>ValuApi\<close>.\<close>

definition new_ValuApi :: api_state where
  "new_ValuApi =
     \<lparr>eventEmitter = Map.empty,
      valuApplication = \<lparr>ep_id = JUndefined, ep_source = None, ep_origin = None\<rparr>,
      requests = Map.empty,
      lastIntent = None,
      applicationInstance = None,
      promises = [],
      pointers = [],
      awaiting = [],
      id_counter = 0,
      guid_counter = 0,
      outbox = [],
      console = [],
      calls = []\<rparr>"

definition connected :: "api_state \<Rightarrow> bool" where
  "connected s = (ep_origin (valuApplication s) \<noteq> None)"

subsection \<open>Identifiers\<close>

text \<open>Decimal digits, as a number used as a property key is written.\<close>

definition digit :: "nat \<Rightarrow> char" where
  "digit n = ''0123456789'' ! n"

fun digits :: "nat \<Rightarrow> string" where
  "digits n = (if n < 10 then [digit n] else digits (n div 10) @ [digit (n mod 10)])"

text \<open>Property keys: \<open>obj[v]\<close> reads the property named by the string \<open>v\<close> converts to.\<close>

fun to_key :: "jsval \<Rightarrow> string" where
  "to_key JUndefined = ''undefined''"
| "to_key JNull = ''null''"
| "to_key (JBool b) = (if b then ''true'' else ''false'')"
| "to_key (JNum n) = (if n < 0 then ''-'' @ digits (nat (- n)) else digits (nat n))"
| "to_key (JStr s) = s"
| "to_key (JObj kvs) = ''[object Object]''"

text \<open>
  Modelled from the spec: \<open>Utils.js\<close>, which defines \<open>nextId\<close> and \<open>guid4\<close>, is not among the
  sources. The specification says of it: "the identifier-generation utility (assumed to
  supply unique values)". Both are modelled as counters of the module, shared by the
  client and its pointers, which import the same two functions: \<open>nextId\<close> yields the next
  number, \<open>guid4\<close> the next of a sequence of pairwise different strings.
\<close>

definition nextId :: "api_state \<Rightarrow> jsval \<times> api_state" where
  "nextId s = (JNum (int (id_counter s)), s\<lparr>id_counter := Suc (id_counter s)\<rparr>)"

text \<open>Modelled from the spec: \<open>guid4\<close> of the same missing \<open>Utils.js\<close>, "assumed to supply
  unique values": the strings \<open>guid-0\<close>, \<open>guid-1\<close>, ... in turn.\<close>

definition guid4 :: "api_state \<Rightarrow> jsval \<times> api_state" where
  "guid4 s = (JStr (''guid-'' @ digits (guid_counter s)), s\<lparr>guid_counter := Suc (guid_counter s)\<rparr>)"

subsection \<open>Promises\<close>

text \<open>\<open>#createDeferred()\<close>: a new pending promise and \<open>nextId()\<close>. The result is the \<open>id\<close> and
  the promise of the deferred.\<close>

definition createDeferred :: "api_state \<Rightarrow> (jsval \<times> nat) \<times> api_state" where
  "createDeferred s =
     (case nextId (s\<lparr>promises := promises s @ [None]\<rparr>) of
        (i, s') \<Rightarrow> ((i, length (promises s)), s'))"

text \<open>Settling a promise: only a pending promise changes.\<close>

definition settle :: "nat \<Rightarrow> settlement \<Rightarrow> api_state \<Rightarrow> api_state" where
  "settle p v s =
     (if p < length (promises s) \<and> promises s ! p = None
      then s\<lparr>promises := (promises s)[p := Some v]\<rparr> else s)"

definition promise_state :: "api_state \<Rightarrow> nat \<Rightarrow> settlement option" where
  "promise_state s p = (if p < length (promises s) then promises s ! p else None)"

text \<open>What an \<open>async\<close> method hands to its caller: a promise already rejected with what the
  body threw, or a promise that settles as the promise \<open>p\<close> the body returned.\<close>

datatype operation = RejectedNow thrown | Follows nat

fun operation_state :: "api_state \<Rightarrow> operation \<Rightarrow> settlement option" where
  "operation_state s (RejectedNow e) = Some (Rejected e)"
| "operation_state s (Follows p) = promise_state s p"

subsection \<open>Posting to the host\<close>

text \<open>\<open>#postToValuApp(name, message)\<close>: \<open>this.#valuApplication.source.postMessage(data, origin)\<close>
  throws a \<open>TypeError\<close> while no source has been captured.\<close>

definition postToValuApp :: "string \<Rightarrow> jsval \<Rightarrow> api_state \<Rightarrow> (thrown + unit) \<times> api_state" where
  "postToValuApp name message s =
     (case ep_source (valuApplication s) of
        None \<Rightarrow> (Inl TypeError, s)
      | Some w \<Rightarrow>
          (Inr (),
           s\<lparr>outbox := outbox s @
                [(w, ep_origin (valuApplication s),
                  JObj [(''name'', JStr name), (''message'', message)])]\<rparr>))"

section \<open>Intent\<close>

text \<open>\<open>constructor(applicationId, action = Intent.ACTION_OPEN, params = {})\<close>: a default
  replaces an argument that is \<open>undefined\<close>.\<close>

definition ACTION_OPEN :: jsval where
  "ACTION_OPEN = JStr ''open''"

definition Intent_new :: "jsval \<Rightarrow> jsval \<Rightarrow> jsval \<Rightarrow> Intent" where
  "Intent_new appId act par =
     \<lparr>applicationId = appId,
      action = (if act = JUndefined then ACTION_OPEN else act),
      params = (if par = JUndefined then JObj [] else par)\<rparr>"

section \<open>APIPointer\<close>

text \<open>
  \<open>constructor(apiName, version, runRequest)\<close> has three parameters; arguments of a call
  beyond the third (\<open>rest\<close>) are bound to nothing. The pointer's \<open>guid\<close> is the result of its
  own call of \<open>guid4()\<close>. The result is the place of the new object in the heap.
\<close>

definition APIPointer_new :: "jsval \<Rightarrow> jsval \<Rightarrow> jsarg \<Rightarrow> jsarg list \<Rightarrow> api_state \<Rightarrow> nat \<times> api_state" where
  "APIPointer_new name ver run_request rest s =
     (case guid4 s of
        (g, s1) \<Rightarrow>
          (length (pointers s1),
           s1\<lparr>pointers := pointers s1 @
                 [\<lparr>apiName = name, version = ver, guid = g, runRequest = run_request,
                   apiCalls = Map.empty, pointer_events = Map.empty\<rparr>]\<rparr>))"

text \<open>\<open>async #onApiRunRequest(functionName, params, requestId, apiPointer)\<close> of the client.
  Its caller drops the promise it returns, so a throw of the post is seen by nobody.\<close>

definition onApiRunRequest :: "jsval \<Rightarrow> jsval \<Rightarrow> jsval \<Rightarrow> nat \<Rightarrow> api_state \<Rightarrow> api_state" where
  "onApiRunRequest functionName ps requestId h s =
     snd (postToValuApp ''api:run''
            (JObj [(''apiPointerId'', guid (pointers s ! h)),
                   (''requestId'', requestId),
                   (''functionName'', functionName),
                   (''params'', ps)])
            (s\<lparr>requests := (requests s)(to_key requestId \<mapsto> Pointer h)\<rparr>))"

text \<open>\<open>run(functionName, params)\<close> of the pointer at place \<open>h\<close> of the heap: calling a
  \<open>#runRequest\<close> that is not a function throws a \<open>TypeError\<close>, after the deferred was recorded.
  (A place that holds no pointer has no \<open>run\<close> to call.)\<close>

definition run :: "nat \<Rightarrow> jsval \<Rightarrow> jsval \<Rightarrow> api_state \<Rightarrow> (thrown + nat) \<times> api_state" where
  "run h functionName ps s =
     (if \<not> h < length (pointers s) then (Inl TypeError, s)
      else
        (case createDeferred s of
           ((i, p), s1) \<Rightarrow>
             (let ptr = pointers s1 ! h;
                  s2 = s1\<lparr>pointers := (pointers s1)[h := ptr\<lparr>apiCalls := (apiCalls ptr)(to_key i \<mapsto> p)\<rparr>]\<rparr>
              in (case runRequest ptr of
                    RunRequestClosure \<Rightarrow> (Inr p, onApiRunRequest functionName ps i h s2)
                  | Val v \<Rightarrow> (Inl TypeError, s2)))))"

text \<open>\<open>postRunResult(requestId, result)\<close> of the pointer at place \<open>h\<close>. An inherited member
  found under the key has neither \<open>reject\<close> nor \<open>resolve\<close> to call.\<close>

definition postRunResult :: "nat \<Rightarrow> jsval \<Rightarrow> jsval \<Rightarrow> api_state \<Rightarrow> (thrown + unit) \<times> api_state" where
  "postRunResult h requestId result s =
     (let ptr = pointers s ! h in
      (case lookup (apiCalls ptr) (to_key requestId) of
         Missing \<Rightarrow>
           (Inr (), s\<lparr>console := console s @ [ConsoleError ''Failed to postRunResult for '' requestId]\<rparr>)
       | Inherited \<Rightarrow> (Inl TypeError, s)
       | Own p \<Rightarrow>
           (let s1 = (if truthy (optprop result ''error'')
                      then settle p (Rejected (Raw (optprop result ''error''))) s
                      else settle p (Resolved result) s)
            in (Inr (),
                s1\<lparr>pointers := (pointers s1)[h := ptr\<lparr>apiCalls := (apiCalls ptr)(to_key requestId := None)\<rparr>]\<rparr>))))"

section \<open>ValuApi: operations\<close>

text \<open>\<open>async #registerApiPointer(apiName, version, guid)\<close>\<close>

definition registerApiPointer :: "jsval \<Rightarrow> jsval \<Rightarrow> jsval \<Rightarrow> api_state \<Rightarrow> operation \<times> api_state" where
  "registerApiPointer name ver g s =
     (case createDeferred s of
        ((i, p), s1) \<Rightarrow>
          (case postToValuApp ''api:create-pointer''
                  (JObj [(''guid'', g), (''api'', name), (''version'', ver), (''requestId'', i)]) s1 of
             (Inl e, s2) \<Rightarrow> (RejectedNow e, s2)
           | (Inr u, s2) \<Rightarrow> (Follows p, s2\<lparr>requests := (requests s2)(to_key i \<mapsto> Deferred p)\<rparr>)))"

text \<open>
  \<open>async getApi(apiName, version)\<close> up to its \<open>await\<close>. When the registration threw, the
  promise of \<open>getApi\<close> is rejected with the same reason; otherwise it is a new pending promise
  and the rest of the body waits for the promise of the registration.
\<close>

definition getApi :: "jsval \<Rightarrow> jsval \<Rightarrow> api_state \<Rightarrow> operation \<times> api_state" where
  "getApi name ver s =
     (case guid4 s of
        (g, s1) \<Rightarrow>
          (case registerApiPointer name ver g s1 of
             (RejectedNow e, s2) \<Rightarrow> (RejectedNow e, s2)
           | (Follows p, s2) \<Rightarrow>
               (Follows (length (promises s2)),
                s2\<lparr>promises := promises s2 @ [None],
                   awaiting := awaiting s2 @ [(p, GetApiRest name g (length (promises s2)))]\<rparr>)))"

text \<open>
  The rest of \<open>getApi\<close>, run with what the awaited promise settled with: a rejection is
  rethrown; \<open>result.error\<close> throws on \<open>undefined\<close> and \<open>null\<close>; a truthy \<open>result.error\<close> is thrown
  as \<open>new Error(result.error)\<close>; otherwise
  \<open>new APIPointer(apiName, result.version, guid, (functionName, ...) => {...})\<close> is returned.
  Whatever the body throws rejects the promise \<open>q\<close> of \<open>getApi\<close>. (No deferred is ever
  resolved with a pointer; such a result would have no \<open>error\<close> and would report its own
  \<open>version\<close>.)
\<close>

fun getApi_rest :: "jsval \<Rightarrow> jsval \<Rightarrow> nat \<Rightarrow> settlement \<Rightarrow> api_state \<Rightarrow> api_state" where
  "getApi_rest name g q (Rejected e) s = settle q (Rejected e) s"
| "getApi_rest name g q (Resolved result) s =
     (case getprop result ''error'' of
        Inl e \<Rightarrow> settle q (Rejected e) s
      | Inr err \<Rightarrow>
          if truthy err then settle q (Rejected (ErrorObj err)) s
          else (case APIPointer_new name (optprop result ''version'') (Val g) [RunRequestClosure] s of
                  (h, s1) \<Rightarrow> settle q (ResolvedPointer h) s1))"
| "getApi_rest name g q (ResolvedPointer r) s =
     (case APIPointer_new name (version (pointers s ! r)) (Val g) [RunRequestClosure] s of
        (h, s1) \<Rightarrow> settle q (ResolvedPointer h) s1)"

fun run_continuation :: "continuation \<Rightarrow> settlement \<Rightarrow> api_state \<Rightarrow> api_state" where
  "run_continuation (GetApiRest name g q) x s = getApi_rest name g q x s"

text \<open>The microtasks after a piece of synchronous code: every waiting continuation whose
  promise has settled runs, in the order of the \<open>await\<close>s; the others keep waiting.\<close>

fun run_settled :: "(nat \<times> continuation) list \<Rightarrow> api_state \<Rightarrow> (nat \<times> continuation) list \<times> api_state" where
  "run_settled [] s = ([], s)"
| "run_settled ((p, k) # ws) s =
     (case promise_state s p of
        None \<Rightarrow> (case run_settled ws s of (ws', s') \<Rightarrow> ((p, k) # ws', s'))
      | Some x \<Rightarrow> run_settled ws (run_continuation k x s))"

definition run_microtasks :: "api_state \<Rightarrow> api_state" where
  "run_microtasks s =
     (case run_settled (awaiting s) (s\<lparr>awaiting := []\<rparr>) of
        (ws', s') \<Rightarrow> s'\<lparr>awaiting := ws' @ awaiting s'\<rparr>)"

text \<open>\<open>async sendIntent(intent)\<close> and \<open>async callService(intent)\<close>\<close>

definition intent_request :: "Intent \<Rightarrow> jsval \<Rightarrow> jsval" where
  "intent_request intent requestId =
     JObj [(''applicationId'', applicationId intent), (''action'', action intent),
           (''params'', params intent), (''requestId'', requestId)]"

definition sendIntent :: "Intent \<Rightarrow> api_state \<Rightarrow> operation \<times> api_state" where
  "sendIntent intent s =
     (case createDeferred s of
        ((i, p), s1) \<Rightarrow>
          (case postToValuApp ''api:run-intent'' (intent_request intent i) s1 of
             (Inl e, s2) \<Rightarrow> (RejectedNow e, s2)
           | (Inr u, s2) \<Rightarrow> (Follows p, s2\<lparr>requests := (requests s2)(to_key i \<mapsto> Deferred p)\<rparr>)))"

definition callService :: "Intent \<Rightarrow> api_state \<Rightarrow> operation \<times> api_state" where
  "callService intent s =
     (case createDeferred s of
        ((i, p), s1) \<Rightarrow>
          (case postToValuApp ''api:service-intent'' (intent_request intent i) s1 of
             (Inl e, s2) \<Rightarrow> (RejectedNow e, s2)
           | (Inr u, s2) \<Rightarrow> (Follows p, s2\<lparr>requests := (requests s2)(to_key i \<mapsto> Deferred p)\<rparr>)))"

text \<open>\<open>async runConsoleCommand(command)\<close>: the deferred is recorded before the post.\<close>

definition runConsoleCommand :: "jsval \<Rightarrow> api_state \<Rightarrow> operation \<times> api_state" where
  "runConsoleCommand command s =
     (case createDeferred s of
        ((i, p), s1) \<Rightarrow>
          (case postToValuApp ''api:run-console'' (JObj [(''requestId'', i), (''command'', command)])
                  (s1\<lparr>requests := (requests s1)(to_key i \<mapsto> Deferred p)\<rparr>) of
             (Inl e, s2) \<Rightarrow> (RejectedNow e, s2)
           | (Inr u, s2) \<Rightarrow> (Follows p, s2)))"

text \<open>\<open>#runCommand(name, data)\<close>, \<open>pushRoute(path)\<close>, \<open>replaceRoute(path)\<close>\<close>

definition runCommand :: "string \<Rightarrow> jsval \<Rightarrow> api_state \<Rightarrow> (thrown + unit) \<times> api_state" where
  "runCommand name data s =
     postToValuApp ''api:run-command'' (JObj [(''command'', JStr name), (''data'', data)]) s"

definition pushRoute :: "jsval \<Rightarrow> api_state \<Rightarrow> (thrown + unit) \<times> api_state" where
  "pushRoute path s = runCommand ''pushRoute'' path s"

definition replaceRoute :: "jsval \<Rightarrow> api_state \<Rightarrow> (thrown + unit) \<times> api_state" where
  "replaceRoute path s = runCommand ''replaceRoute'' path s"

section \<open>ValuApi: lifecycle callbacks and events\<close>

text \<open>Calling a callback: the invocation is recorded, the behaviour gives its outcome.\<close>

definition invoke :: "behaviour \<Rightarrow> callee \<Rightarrow> arg list \<Rightarrow> api_state \<Rightarrow> outcome \<times> api_state" where
  "invoke beh c args s = (beh (calls s) c args, s\<lparr>calls := calls s @ [(c, args)]\<rparr>)"

text \<open>\<open>this.#eventEmitter.emit(eventName, ...parameters)\<close>\<close>

definition emit_event :: "behaviour \<Rightarrow> string \<Rightarrow> arg list \<Rightarrow> api_state \<Rightarrow> (thrown + retval) \<times> api_state" where
  "emit_event beh eventName ps s =
     (case emit beh eventName ps (eventEmitter s, calls s) of
        (r, evs', tr') \<Rightarrow> (r, s\<lparr>eventEmitter := evs', calls := tr'\<rparr>))"

text \<open>\<open>addEventListener\<close> and \<open>removeEventListener\<close> of the client pass their arguments on to
  the emitter.\<close>

definition api_addEventListener :: "string \<Rightarrow> nat option \<Rightarrow> bool \<Rightarrow> api_state \<Rightarrow> api_state" where
  "api_addEventListener eventName cb once_flag s =
     s\<lparr>eventEmitter := addEventListener eventName cb once_flag (eventEmitter s)\<rparr>"

definition api_removeEventListener :: "string option \<Rightarrow> nat option \<Rightarrow> api_state \<Rightarrow> api_state" where
  "api_removeEventListener eventName cb s =
     s\<lparr>eventEmitter := removeEventListener eventName cb (eventEmitter s)\<rparr>"

text \<open>\<open>this.#applicationInstance?.m(x)\<close>: nothing is called while no shell is bound; a throw of
  the method is a throw of the expression; its return value is dropped.\<close>

definition call_shell :: "behaviour \<Rightarrow> lifecycle \<Rightarrow> arg list \<Rightarrow> api_state \<Rightarrow> (thrown + unit) \<times> api_state" where
  "call_shell beh m args s =
     (case applicationInstance s of
        None \<Rightarrow> (Inr (), s)
      | Some a \<Rightarrow>
          (case invoke beh (Shell a m) args s of
             (Throws e, s1) \<Rightarrow> (Inl e, s1)
           | (Returns v, s1) \<Rightarrow> (Inr (), s1)))"

text \<open>
  \<open>setApplication(appInstance)\<close>: with a last intent recorded,
  \<open>appInstance.onCreate(this.#lastIntent).catch(console.error)\<close>. A return value that is not
  a promise has no \<open>catch\<close> to call (\<open>TypeError\<close>); a promise that rejects has its reason
  written to the console.
\<close>

definition setApplication :: "behaviour \<Rightarrow> nat \<Rightarrow> api_state \<Rightarrow> (thrown + unit) \<times> api_state" where
  "setApplication beh appInstance s =
     (let s1 = s\<lparr>applicationInstance := Some appInstance\<rparr> in
      (case lastIntent s1 of
         None \<Rightarrow> (Inr (), s1)
       | Some intent \<Rightarrow>
           (case invoke beh (Shell appInstance OnCreate) [AIntent intent] s1 of
              (Throws e, s2) \<Rightarrow> (Inl e, s2)
            | (Returns (Plain v), s2) \<Rightarrow> (Inl TypeError, s2)
            | (Returns (Fulfilled v), s2) \<Rightarrow> (Inr (), s2)
            | (Returns (RejectedWith e), s2) \<Rightarrow>
                (Inr (), s2\<lparr>console := console s2 @ [ConsoleErrorThrown e]\<rparr>))))"

section \<open>ValuApi: the handler of inbound messages\<close>

definition API_READY :: string where
  "API_READY = ''api:ready''"

definition ON_ROUTE :: string where
  "ON_ROUTE = ''on_route''"

text \<open>
  \<open>case 'api:ready'\<close>. The object literal reads \<open>message.applicationId\<close> first, which throws
  on a payload that is \<open>undefined\<close> or \<open>null\<close>; once that read has succeeded the later reads
  of \<open>message.action\<close> and \<open>message.params\<close> cannot throw.
\<close>

definition handle_ready :: "behaviour \<Rightarrow> message_event \<Rightarrow> jsval \<Rightarrow> api_state \<Rightarrow> (thrown + unit) \<times> api_state" where
  "handle_ready beh event message s =
     (case getprop message ''applicationId'' of
        Inl e \<Rightarrow> (Inl e, s)
      | Inr appId \<Rightarrow>
          (let s1 = s\<lparr>valuApplication :=
                        \<lparr>ep_id = appId, ep_source = ev_source event, ep_origin = Some (ev_origin event)\<rparr>\<rparr>
           in (case emit_event beh API_READY [] s1 of
                 (Inl e, s2) \<Rightarrow> (Inl e, s2)
               | (Inr v, s2) \<Rightarrow>
                   (let intent = Intent_new appId (optprop message ''action'') (optprop message ''params'')
                    in (case call_shell beh OnCreate [AIntent intent] s2 of
                          (Inl e, s3) \<Rightarrow> (Inl e, s3)
                        | (Inr u, s3) \<Rightarrow> (Inr (), s3\<lparr>lastIntent := Some intent\<rparr>))))))"

text \<open>\<open>case 'api:trigger'\<close>: only the action \<open>on_route\<close> does anything.\<close>

definition handle_trigger :: "behaviour \<Rightarrow> jsval \<Rightarrow> api_state \<Rightarrow> (thrown + unit) \<times> api_state" where
  "handle_trigger beh message s =
     (case getprop message ''action'' of
        Inl e \<Rightarrow> (Inl e, s)
      | Inr a \<Rightarrow>
          if a = JStr ON_ROUTE then
            (case emit_event beh ON_ROUTE [AVal (optprop message ''data'')] s of
               (Inl e, s1) \<Rightarrow> (Inl e, s1)
             | (Inr v, s1) \<Rightarrow> call_shell beh OnUpdateRouterContext [AVal (optprop message ''data'')] s1)
          else (Inr (), s))"

text \<open>\<open>case 'api:new-intent'\<close>\<close>

definition handle_new_intent :: "behaviour \<Rightarrow> jsval \<Rightarrow> api_state \<Rightarrow> (thrown + unit) \<times> api_state" where
  "handle_new_intent beh message s =
     (case getprop message ''applicationId'' of
        Inl e \<Rightarrow> (Inl e, s)
      | Inr appId \<Rightarrow>
          call_shell beh OnNewIntent
            [AIntent (Intent_new appId (optprop message ''action'') (optprop message ''params''))] s)"

text \<open>\<open>case 'api:run-console-completed'\<close>: \<open>this.#requests[requestId]\<close> is truthy for an entry
  and for an inherited member; an entry that is a pointer and an inherited member have no
  \<open>resolve\<close> to call.\<close>

definition handle_run_console_completed :: "jsval \<Rightarrow> jsval \<Rightarrow> api_state \<Rightarrow> (thrown + unit) \<times> api_state" where
  "handle_run_console_completed requestId message s =
     (case lookup (requests s) (to_key requestId) of
        Own (Deferred p) \<Rightarrow>
          (let s1 = settle p (Resolved message) s
           in (Inr (), s1\<lparr>requests := (requests s1)(to_key requestId := None)\<rparr>))
      | Own (Pointer h) \<Rightarrow> (Inl TypeError, s)
      | Inherited \<Rightarrow> (Inl TypeError, s)
      | Missing \<Rightarrow>
          (let s1 = s\<lparr>console := console s @
                        [ConsoleLog ''Failed to locate console request with Id: '' requestId]\<rparr>
           in (Inr (), s1\<lparr>requests := (requests s1)(to_key requestId := None)\<rparr>)))"

text \<open>\<open>case 'api:run-completed'\<close>: an entry that is a deferred and an inherited member have no
  \<open>postRunResult\<close> to call; a throw of \<open>postRunResult\<close> leaves the handler before the \<open>delete\<close>.\<close>

definition handle_run_completed :: "jsval \<Rightarrow> jsval \<Rightarrow> api_state \<Rightarrow> (thrown + unit) \<times> api_state" where
  "handle_run_completed requestId message s =
     (case lookup (requests s) (to_key requestId) of
        Missing \<Rightarrow>
          (Inr (), s\<lparr>console := console s @
                       [ConsoleError ''Failed to find Api Pointer for requestId: '' requestId]\<rparr>)
      | Inherited \<Rightarrow> (Inl TypeError, s)
      | Own (Deferred p) \<Rightarrow> (Inl TypeError, s)
      | Own (Pointer h) \<Rightarrow>
          (case postRunResult h requestId message s of
             (Inl e, s1) \<Rightarrow> (Inl e, s1)
           | (Inr u, s1) \<Rightarrow> (Inr (), s1\<lparr>requests := (requests s1)(to_key requestId := None)\<rparr>)))"

text \<open>\<open>case 'api:pointer-created'\<close>: as for the console reply, but for the \<open>delete\<close>.\<close>

definition handle_pointer_created :: "jsval \<Rightarrow> jsval \<Rightarrow> api_state \<Rightarrow> (thrown + unit) \<times> api_state" where
  "handle_pointer_created requestId message s =
     (case lookup (requests s) (to_key requestId) of
        Own (Deferred p) \<Rightarrow>
          (let s1 = settle p (Resolved message) s
           in (Inr (), s1\<lparr>requests := (requests s1)(to_key requestId := None)\<rparr>))
      | Own (Pointer h) \<Rightarrow> (Inl TypeError, s)
      | Inherited \<Rightarrow> (Inl TypeError, s)
      | Missing \<Rightarrow>
          (Inr (), s\<lparr>console := console s @
                       [ConsoleLog ''Failed to locate pointer create request with Id: '' requestId]\<rparr>))"

text \<open>
  \<open>#handleParentMessage(event)\<close>. A message that passed the test of its \<open>target\<close> is an
  object, so the reads \<open>event.data.message\<close>, \<open>event.data.name\<close> and \<open>event.data.requestId\<close>
  do not throw.
\<close>

definition handleParentMessage :: "behaviour \<Rightarrow> message_event \<Rightarrow> api_state \<Rightarrow> (thrown + unit) \<times> api_state" where
  "handleParentMessage beh event s =
     (if optprop (ev_data event) ''target'' \<noteq> JStr ''valuApi'' then (Inr (), s)
      else
        (let message = optprop (ev_data event) ''message'';
             name = optprop (ev_data event) ''name'';
             requestId = optprop (ev_data event) ''requestId''
         in if name = JStr ''api:ready'' then handle_ready beh event message s
            else if name = JStr ''api:trigger'' then handle_trigger beh message s
            else if name = JStr ''api:new-intent'' then handle_new_intent beh message s
            else if name = JStr ''api:run-console-completed'' then handle_run_console_completed requestId message s
            else if name = JStr ''api:run-completed'' then handle_run_completed requestId message s
            else if name = JStr ''api:pointer-created'' then handle_pointer_created requestId message s
            else (Inr (), s)))"

text \<open>A message delivered by the event loop: the handler, then the microtasks.\<close>

definition deliver :: "behaviour \<Rightarrow> message_event \<Rightarrow> api_state \<Rightarrow> (thrown + unit) \<times> api_state" where
  "deliver beh event s =
     (case handleParentMessage beh event s of (r, s') \<Rightarrow> (r, run_microtasks s'))"

text \<open>The envelope of an inbound message.\<close>

definition envelope :: "string \<Rightarrow> jsval \<Rightarrow> jsval \<Rightarrow> jsval" where
  "envelope name requestId message =
     JObj [(''target'', JStr ''valuApi''), (''name'', JStr name),
           (''requestId'', requestId), (''message'', message)]"

section \<open>Notions used in the statements\<close>

text \<open>The positions of the one-shot entries of a list, counted from \<open>i\<close>.\<close>

fun once_indices :: "nat \<Rightarrow> listener list \<Rightarrow> nat list" where
  "once_indices i [] = []"
| "once_indices i (l # ls) = (if once l then [i] else []) @ once_indices (Suc i) ls"

text \<open>What the loop does to an entry: one without callback becomes one-shot.\<close>

definition mark :: "listener \<Rightarrow> listener" where
  "mark l = (if callback l = None then l\<lparr>once := True\<rparr> else l)"

text \<open>The invocations a complete pass over a list makes.\<close>

fun calls_of :: "arg list \<Rightarrow> listener list \<Rightarrow> call list" where
  "calls_of ps [] = []"
| "calls_of ps (l # ls) =
     (case callback l of None \<Rightarrow> calls_of ps ls | Some c \<Rightarrow> (Listener c, ps) # calls_of ps ls)"

text \<open>The callbacks registered under a name, and how often a callback was invoked as a
  listener.\<close>

definition callbacks :: "events \<Rightarrow> string \<Rightarrow> nat set" where
  "callbacks evs n = set (List.map_filter callback (listeners_of evs n))"

definition invocations :: "nat \<Rightarrow> call list \<Rightarrow> nat" where
  "invocations c tr = length (filter (\<lambda>x. fst x = Listener c) tr)"

text \<open>The promise a waiting continuation settles.\<close>

fun target :: "continuation \<Rightarrow> nat" where
  "target (GetApiRest name g q) = q"

text \<open>Every waiting continuation settles a promise that exists.\<close>

definition awaiting_ok :: "api_state \<Rightarrow> bool" where
  "awaiting_ok s = (\<forall>k\<in>set (awaiting s). target (snd k) < length (promises s))"

text \<open>A readiness message: one that passes the test of the target and is named \<open>api:ready\<close>.\<close>

definition is_ready :: "message_event \<Rightarrow> bool" where
  "is_ready event =
     (optprop (ev_data event) ''target'' = JStr ''valuApi'' \<and>
      optprop (ev_data event) ''name'' = JStr ''api:ready'')"

section \<open>Concrete runs\<close>

text \<open>Callbacks that return a promise fulfilled with \<open>undefined\<close> (as an \<open>async\<close> function with
  an empty body does), callbacks that throw, and a shell whose \<open>onNewIntent\<close> answers.\<close>

definition quiet :: behaviour where
  "quiet tr c args = Returns (Fulfilled JUndefined)"

definition failing :: behaviour where
  "failing tr c args = Throws (Raw (JStr ''boom''))"

definition failing_shell :: behaviour where
  "failing_shell tr c args =
     (case c of
        Listener k \<Rightarrow> Returns (Plain JUndefined)
      | Shell a m \<Rightarrow> Throws (Raw (JStr ''boom'')))"

definition answering :: behaviour where
  "answering tr c args =
     (case c of
        Shell a OnNewIntent \<Rightarrow> Returns (Fulfilled (JObj [(''handled'', JBool True)]))
      | _ \<Rightarrow> Returns (Fulfilled JUndefined))"

definition inbound :: "string \<Rightarrow> jsval \<Rightarrow> jsval \<Rightarrow> nat \<Rightarrow> string \<Rightarrow> message_event" where
  "inbound name requestId message w orig =
     \<lparr>ev_data = envelope name requestId message, ev_source = Some w, ev_origin = orig\<rparr>"

definition launch_event :: message_event where
  "launch_event =
     inbound ''api:ready'' JUndefined (JObj [(''applicationId'', JStr ''app'')]) 0 ''https://host''"

definition relaunch_event :: message_event where
  "relaunch_event =
     inbound ''api:ready'' JUndefined (JObj [(''applicationId'', JStr ''app'')]) 1 ''https://other''"

definition new_intent_event :: message_event where
  "new_intent_event =
     inbound ''api:new-intent'' JUndefined
       (JObj [(''applicationId'', JStr ''app''), (''action'', JStr ''view''),
              (''params'', JObj [(''roomId'', JStr ''1234'')])]) 0 ''https://host''"

definition pointer_created_event :: message_event where
  "pointer_created_event =
     inbound ''api:pointer-created'' (JNum 0) (JObj [(''version'', JNum 3)]) 0 ''https://host''"

definition console_reply_event :: message_event where
  "console_reply_event =
     inbound ''api:run-console-completed'' (JNum 0) (JStr ''ERROR: unknown command'') 0 ''https://host''"

text \<open>A reply of the given kind whose identifier was never issued and names a member that a
  \<open>Map\<close> inherits.\<close>

definition stray_reply :: "string \<Rightarrow> message_event" where
  "stray_reply name = inbound name (JStr ''constructor'') (JStr ''done'') 0 ''https://host''"

text \<open>The client after the launch message; then with a shell bound; then after
  \<open>getApi("x", 2)\<close>; then after the host's reply \<open>{version: 3}\<close>.\<close>

definition s_ready :: api_state where
  "s_ready = snd (deliver quiet launch_event new_ValuApi)"

definition s_shell :: api_state where
  "s_shell = snd (setApplication answering 5 s_ready)"

definition s_requested :: api_state where
  "s_requested = snd (getApi (JStr ''x'') (JNum 2) s_ready)"

definition s_bound :: api_state where
  "s_bound = snd (deliver quiet pointer_created_event s_requested)"

text \<open>A client with a shell and a listener of the readiness event, before any message.\<close>

definition s_listening :: api_state where
  "s_listening =
     api_addEventListener API_READY (Some 1) False (new_ValuApi\<lparr>applicationInstance := Some 5\<rparr>)"

section \<open>Basic facts\<close>

declare digits.simps [simp del]

lemma createDeferred_frame:
  "createDeferred s = ((i, p), s1) \<Longrightarrow>
     requests s1 = requests s \<and> valuApplication s1 = valuApplication s \<and> outbox s1 = outbox s"
  by (auto simp: createDeferred_def nextId_def)

section \<open>Failure of a post\<close>

text \<open>
  C9. \<open>sendIntent\<close>, \<open>callService\<close> and the registration step of \<open>getApi\<close> post the outbound
  message before they record the waiter: while no source has been captured the post throws,
  the promise handed to the caller is rejected with that \<open>TypeError\<close>, and \<open>#requests\<close> and the
  outbox are what they were before the call.
\<close>

theorem post_failure_is_atomic:
  assumes "ep_source (valuApplication s) = None"
  shows "fst (sendIntent intent s) = RejectedNow TypeError
       \<and> requests (snd (sendIntent intent s)) = requests s
       \<and> outbox (snd (sendIntent intent s)) = outbox s
       \<and> fst (callService intent s) = RejectedNow TypeError
       \<and> requests (snd (callService intent s)) = requests s
       \<and> outbox (snd (callService intent s)) = outbox s
       \<and> fst (registerApiPointer name ver g s) = RejectedNow TypeError
       \<and> requests (snd (registerApiPointer name ver g s)) = requests s
       \<and> fst (getApi name ver s) = RejectedNow TypeError
       \<and> requests (snd (getApi name ver s)) = requests s
       \<and> outbox (snd (getApi name ver s)) = outbox s"
  using assms
  by (simp add: sendIntent_def callService_def registerApiPointer_def getApi_def createDeferred_def
      nextId_def guid4_def postToValuApp_def)

theorem post_failure_is_atomic_witness:
  "ep_source (valuApplication new_ValuApi) = None
   \<and> fst (sendIntent (Intent_new (JStr ''chat'') JUndefined JUndefined) new_ValuApi) = RejectedNow TypeError
   \<and> requests (snd (sendIntent (Intent_new (JStr ''chat'') JUndefined JUndefined) new_ValuApi)) = requests new_ValuApi
   \<and> fst (callService (Intent_new (JStr ''chat'') JUndefined JUndefined) new_ValuApi) = RejectedNow TypeError
   \<and> requests (snd (callService (Intent_new (JStr ''chat'') JUndefined JUndefined) new_ValuApi)) = requests new_ValuApi
   \<and> fst (getApi (JStr ''x'') (JNum 2) new_ValuApi) = RejectedNow TypeError
   \<and> requests (snd (getApi (JStr ''x'') (JNum 2) new_ValuApi)) = requests new_ValuApi"
  using post_failure_is_atomic [of new_ValuApi "Intent_new (JStr ''chat'') JUndefined JUndefined"
      "JStr ''x''" "JNum 2" JUndefined]
  by (simp add: new_ValuApi_def)

section \<open>Frame conditions\<close>

lemma getprop_optprop: "getprop v k = Inr a \<Longrightarrow> a = optprop v k"
  by (cases v) auto

lemma envelope_fields [simp]:
  "optprop (envelope name i m) ''target'' = JStr ''valuApi''"
  "optprop (envelope name i m) ''name'' = JStr name"
  "optprop (envelope name i m) ''requestId'' = i"
  "optprop (envelope name i m) ''message'' = m"
  by (simp_all add: envelope_def)

lemma settle_frame [simp]:
  "valuApplication (settle p v s) = valuApplication s"
  "lastIntent (settle p v s) = lastIntent s"
  "calls (settle p v s) = calls s"
  "requests (settle p v s) = requests s"
  "applicationInstance (settle p v s) = applicationInstance s"
  "eventEmitter (settle p v s) = eventEmitter s"
  "outbox (settle p v s) = outbox s"
  "console (settle p v s) = console s"
  "pointers (settle p v s) = pointers s"
  "awaiting (settle p v s) = awaiting s"
  "length (promises (settle p v s)) = length (promises s)"
  by (simp_all add: settle_def)

lemma APIPointer_new_frame:
  "APIPointer_new n v r rest s = (h, s1) \<Longrightarrow>
     valuApplication s1 = valuApplication s \<and> lastIntent s1 = lastIntent s \<and> calls s1 = calls s
     \<and> requests s1 = requests s \<and> applicationInstance s1 = applicationInstance s
     \<and> eventEmitter s1 = eventEmitter s \<and> outbox s1 = outbox s \<and> console s1 = console s
     \<and> promises s1 = promises s \<and> awaiting s1 = awaiting s"
  by (auto simp: APIPointer_new_def guid4_def)

lemma getApi_rest_frame:
  "valuApplication (getApi_rest n g q x s) = valuApplication s
   \<and> lastIntent (getApi_rest n g q x s) = lastIntent s
   \<and> calls (getApi_rest n g q x s) = calls s
   \<and> requests (getApi_rest n g q x s) = requests s
   \<and> applicationInstance (getApi_rest n g q x s) = applicationInstance s
   \<and> eventEmitter (getApi_rest n g q x s) = eventEmitter s
   \<and> outbox (getApi_rest n g q x s) = outbox s
   \<and> console (getApi_rest n g q x s) = console s
   \<and> awaiting (getApi_rest n g q x s) = awaiting s"
  by (cases x) (auto split: sum.splits prod.splits dest!: APIPointer_new_frame)

lemma run_settled_frame:
  "run_settled ws s = (ws', s') \<Longrightarrow>
     valuApplication s' = valuApplication s \<and> lastIntent s' = lastIntent s \<and> calls s' = calls s
     \<and> requests s' = requests s \<and> applicationInstance s' = applicationInstance s
     \<and> eventEmitter s' = eventEmitter s \<and> outbox s' = outbox s \<and> console s' = console s
     \<and> awaiting s' = awaiting s"
proof (induction ws arbitrary: s ws')
  case Nil
  then show ?case by simp
next
  case (Cons w ws)
  obtain p k where w: "w = (p, k)" by (cases w)
  show ?case
  proof (cases "promise_state s p")
    case None
    with Cons.prems w obtain ws1 where "run_settled ws s = (ws1, s')"
      by (auto split: prod.splits)
    then show ?thesis using Cons.IH by blast
  next
    case (Some x)
    with Cons.prems w have r: "run_settled ws (run_continuation k x s) = (ws', s')" by simp
    obtain n g q where k: "k = GetApiRest n g q" by (cases k)
    from Cons.IH [OF r] show ?thesis using getApi_rest_frame [of n g q x s] k by simp
  qed
qed

lemma run_microtasks_frame:
  "valuApplication (run_microtasks s) = valuApplication s
   \<and> lastIntent (run_microtasks s) = lastIntent s
   \<and> calls (run_microtasks s) = calls s
   \<and> requests (run_microtasks s) = requests s
   \<and> applicationInstance (run_microtasks s) = applicationInstance s
   \<and> eventEmitter (run_microtasks s) = eventEmitter s
   \<and> outbox (run_microtasks s) = outbox s
   \<and> console (run_microtasks s) = console s"
proof -
  obtain ws' s' where r: "run_settled (awaiting s) (s\<lparr>awaiting := []\<rparr>) = (ws', s')"
    by (cases "run_settled (awaiting s) (s\<lparr>awaiting := []\<rparr>)")
  from run_settled_frame [OF r] show ?thesis by (simp add: run_microtasks_def r)
qed

lemma emit_event_frame [simp]:
  "valuApplication (snd (emit_event beh n ps s)) = valuApplication s"
  "lastIntent (snd (emit_event beh n ps s)) = lastIntent s"
  "requests (snd (emit_event beh n ps s)) = requests s"
  "applicationInstance (snd (emit_event beh n ps s)) = applicationInstance s"
  "outbox (snd (emit_event beh n ps s)) = outbox s"
  "console (snd (emit_event beh n ps s)) = console s"
  "promises (snd (emit_event beh n ps s)) = promises s"
  "pointers (snd (emit_event beh n ps s)) = pointers s"
  by (simp_all add: emit_event_def split_beta)

lemma call_shell_frame [simp]:
  "valuApplication (snd (call_shell beh m args s)) = valuApplication s"
  "lastIntent (snd (call_shell beh m args s)) = lastIntent s"
  "requests (snd (call_shell beh m args s)) = requests s"
  "applicationInstance (snd (call_shell beh m args s)) = applicationInstance s"
  "eventEmitter (snd (call_shell beh m args s)) = eventEmitter s"
  "outbox (snd (call_shell beh m args s)) = outbox s"
  "console (snd (call_shell beh m args s)) = console s"
  "promises (snd (call_shell beh m args s)) = promises s"
  "pointers (snd (call_shell beh m args s)) = pointers s"
  by (simp_all add: call_shell_def invoke_def split: option.splits outcome.splits)

section \<open>Evaluation of the concrete runs\<close>

lemmas run_defs =
  deliver_def handleParentMessage_def handle_ready_def handle_new_intent_def
  handle_pointer_created_def handle_run_console_completed_def handle_run_completed_def
  postRunResult_def lookup_def Map_members_def emit_event_def emit_def emit_pass_def specialEvent_def call_shell_def
  invoke_def setApplication_def new_ValuApi_def run_microtasks_def Intent_new_def ACTION_OPEN_def
  API_READY_def envelope_def inbound_def getApi_def registerApiPointer_def runConsoleCommand_def
  createDeferred_def nextId_def guid4_def postToValuApp_def settle_def promise_state_def
  APIPointer_new_def run_def onApiRunRequest_def api_addEventListener_def addEventListener_def
  listeners_of_def splice_once_def splice1_def Let_def split_beta digits.simps digit_def

lemma s_ready_eval:
  "s_ready =
     new_ValuApi
       \<lparr>valuApplication := \<lparr>ep_id = JStr ''app'', ep_source = Some 0, ep_origin = Some ''https://host''\<rparr>,
        lastIntent := Some \<lparr>applicationId = JStr ''app'', action = JStr ''open'', params = JObj []\<rparr>\<rparr>"
  by (simp add: s_ready_def launch_event_def quiet_def run_defs)

lemma s_shell_eval:
  "s_shell =
     s_ready
       \<lparr>applicationInstance := Some 5,
        calls := [(Shell 5 OnCreate,
                   [AIntent \<lparr>applicationId = JStr ''app'', action = JStr ''open'', params = JObj []\<rparr>])]\<rparr>"
  by (simp add: s_shell_def s_ready_eval answering_def run_defs)

lemma digits_eval [simp]: "digits 0 = ''0''" "digits 1 = ''1''" "digits 9 = ''9''"
  by (simp_all add: digits.simps digit_def)

lemma s_ready_fields:
  "requests s_ready = Map.empty" "promises s_ready = []" "awaiting s_ready = []"
  "id_counter s_ready = 0" "guid_counter s_ready = 0" "outbox s_ready = []" "pointers s_ready = []"
  "valuApplication s_ready = \<lparr>ep_id = JStr ''app'', ep_source = Some 0, ep_origin = Some ''https://host''\<rparr>"
  "lastIntent s_ready = Some \<lparr>applicationId = JStr ''app'', action = JStr ''open'', params = JObj []\<rparr>"
  "applicationInstance s_ready = None" "calls s_ready = []" "console s_ready = []"
  by (simp_all add: s_ready_eval new_ValuApi_def)

section \<open>The channel endpoint\<close>

lemma handle_trigger_endpoint:
  "valuApplication (snd (handle_trigger beh message s)) = valuApplication s"
proof (cases "getprop message ''action''")
  case (Inl e)
  then show ?thesis by (simp add: handle_trigger_def)
next
  case (Inr a)
  let ?d = "[AVal (optprop message ''data'')]"
  obtain r s1 where e: "emit_event beh ON_ROUTE ?d s = (r, s1)"
    by (cases "emit_event beh ON_ROUTE ?d s")
  have s1: "valuApplication s1 = valuApplication s"
    using emit_event_frame(1) [of beh ON_ROUTE ?d s] e by simp
  have "valuApplication (snd (call_shell beh OnUpdateRouterContext ?d s1)) = valuApplication s"
    using s1 by simp
  then show ?thesis using Inr e s1 by (cases r) (simp_all add: handle_trigger_def)
qed

lemma handle_new_intent_endpoint:
  "valuApplication (snd (handle_new_intent beh message s)) = valuApplication s"
  by (simp add: handle_new_intent_def split: sum.splits)

lemma postRunResult_frame:
  "postRunResult h i m s = (r, s1) \<Longrightarrow>
     valuApplication s1 = valuApplication s \<and> awaiting s1 = awaiting s
     \<and> length (promises s1) = length (promises s)"
  by (auto simp: postRunResult_def Let_def split: found.splits if_splits)

lemma handle_replies_endpoint:
  "valuApplication (snd (handle_run_console_completed i m s)) = valuApplication s"
  "valuApplication (snd (handle_run_completed i m s)) = valuApplication s"
  "valuApplication (snd (handle_pointer_created i m s)) = valuApplication s"
  by (auto simp: handle_run_console_completed_def handle_run_completed_def
      handle_pointer_created_def Let_def split: found.splits waiter.splits prod.splits sum.splits
      dest!: postRunResult_frame)

lemma handle_ready_endpoint:
  "valuApplication (snd (handle_ready beh event message s)) =
     (case getprop message ''applicationId'' of
        Inl e \<Rightarrow> valuApplication s
      | Inr a \<Rightarrow> \<lparr>ep_id = a, ep_source = ev_source event, ep_origin = Some (ev_origin event)\<rparr>)"
proof (cases "getprop message ''applicationId''")
  case (Inl e)
  then show ?thesis by (simp add: handle_ready_def)
next
  case (Inr a)
  let ?s1 = "s\<lparr>valuApplication :=
                 \<lparr>ep_id = a, ep_source = ev_source event, ep_origin = Some (ev_origin event)\<rparr>\<rparr>"
  let ?i = "Intent_new a (optprop message ''action'') (optprop message ''params'')"
  obtain r s2 where e: "emit_event beh API_READY [] ?s1 = (r, s2)"
    by (cases "emit_event beh API_READY [] ?s1")
  have s2: "valuApplication s2 = valuApplication ?s1"
    using emit_event_frame(1) [of beh API_READY "[]" ?s1] e by simp
  obtain r3 s3 where c: "call_shell beh OnCreate [AIntent ?i] s2 = (r3, s3)"
    by (cases "call_shell beh OnCreate [AIntent ?i] s2")
  have s3: "valuApplication s3 = valuApplication s2"
    using call_shell_frame(1) [of beh OnCreate "[AIntent ?i]" s2] c by simp
  show ?thesis
  proof (cases r)
    case (Inl x)
    then show ?thesis using Inr e s2 by (simp add: handle_ready_def)
  next
    case r: (Inr v)
    show ?thesis using Inr r e c s2 s3 by (cases r3) (simp_all add: handle_ready_def)
  qed
qed

text \<open>
  C3, as the specification states it: the endpoint is established exactly once and a second
  readiness message does not alter it. This fails: after the launch message from window 0
  at \<open>https://host\<close>, a readiness message from window 1 at \<open>https://other\<close> replaces the captured
  endpoint.
\<close>

theorem second_readiness_replaces_endpoint:
  "valuApplication (snd (deliver quiet relaunch_event s_ready)) \<noteq> valuApplication s_ready"
  by (simp add: s_ready_eval relaunch_event_def quiet_def run_defs)

text \<open>
  C3, amended: the endpoint is captured anew from every readiness message whose payload is
  not \<open>undefined\<close> or \<open>null\<close>. After such a message the endpoint is the source and the origin
  of that message, so the latest readiness message decides; a readiness message without
  payload and every other inbound message leave the endpoint as it was.
\<close>

theorem endpoint_follows_readiness:
  "valuApplication (snd (deliver beh event s)) =
     (if is_ready event then
        (case getprop (optprop (ev_data event) ''message'') ''applicationId'' of
           Inl e \<Rightarrow> valuApplication s
         | Inr a \<Rightarrow> \<lparr>ep_id = a, ep_source = ev_source event, ep_origin = Some (ev_origin event)\<rparr>)
      else valuApplication s)"
  by (simp add: deliver_def is_ready_def split_beta run_microtasks_frame handleParentMessage_def
      Let_def handle_trigger_endpoint handle_new_intent_endpoint handle_replies_endpoint
      handle_ready_endpoint)

theorem endpoint_follows_readiness_witness:
  "is_ready launch_event
   \<and> valuApplication (snd (deliver quiet launch_event new_ValuApi)) =
       \<lparr>ep_id = JStr ''app'', ep_source = Some 0, ep_origin = Some ''https://host''\<rparr>
   \<and> \<not> is_ready new_intent_event
   \<and> valuApplication (snd (deliver quiet new_intent_event s_ready)) = valuApplication s_ready"
  using endpoint_follows_readiness [of quiet launch_event new_ValuApi]
    endpoint_follows_readiness [of quiet new_intent_event s_ready]
  by (simp add: is_ready_def launch_event_def new_intent_event_def inbound_def)

section \<open>Replies for identifiers that are not pending\<close>

lemma lookup_cases:
  "table key = Some v \<Longrightarrow> lookup table key = Own v"
  "table key = None \<Longrightarrow> key \<notin> set Map_members \<Longrightarrow> lookup table key = Missing"
  "table key = None \<Longrightarrow> key \<in> set Map_members \<Longrightarrow> lookup table key = Inherited"
  by (simp_all add: lookup_def)

text \<open>An identifier that is no key of \<open>#requests\<close> and names no inherited member is dropped: the
  handler returns, and the state is what it was but for one line more on the console.\<close>

lemma unknown_console_reply:
  assumes "optprop (ev_data event) ''target'' = JStr ''valuApi''"
    and "optprop (ev_data event) ''name'' = JStr ''api:run-console-completed''"
    and "requests s (to_key (optprop (ev_data event) ''requestId'')) = None"
    and "to_key (optprop (ev_data event) ''requestId'') \<notin> set Map_members"
  shows "handleParentMessage beh event s =
            (Inr (), s\<lparr>console := console s @
               [ConsoleLog ''Failed to locate console request with Id: ''
                  (optprop (ev_data event) ''requestId'')]\<rparr>)"
  using assms
  by (simp add: handleParentMessage_def Let_def handle_run_console_completed_def lookup_def
      fun_upd_idem)

lemma unknown_pointer_created:
  assumes "optprop (ev_data event) ''target'' = JStr ''valuApi''"
    and "optprop (ev_data event) ''name'' = JStr ''api:pointer-created''"
    and "requests s (to_key (optprop (ev_data event) ''requestId'')) = None"
    and "to_key (optprop (ev_data event) ''requestId'') \<notin> set Map_members"
  shows "handleParentMessage beh event s =
            (Inr (), s\<lparr>console := console s @
               [ConsoleLog ''Failed to locate pointer create request with Id: ''
                  (optprop (ev_data event) ''requestId'')]\<rparr>)"
  using assms
  by (simp add: handleParentMessage_def Let_def handle_pointer_created_def lookup_def)

lemma unknown_run_completed:
  assumes "optprop (ev_data event) ''target'' = JStr ''valuApi''"
    and "optprop (ev_data event) ''name'' = JStr ''api:run-completed''"
    and "requests s (to_key (optprop (ev_data event) ''requestId'')) = None"
    and "to_key (optprop (ev_data event) ''requestId'') \<notin> set Map_members"
  shows "handleParentMessage beh event s =
            (Inr (), s\<lparr>console := console s @
               [ConsoleError ''Failed to find Api Pointer for requestId: ''
                  (optprop (ev_data event) ''requestId'')]\<rparr>)"
  using assms
  by (simp add: handleParentMessage_def Let_def handle_run_completed_def lookup_def)

text \<open>The same for an \<open>api:run-completed\<close> routed to a pointer that has no call under the
  identifier: \<open>postRunResult\<close> writes its line and the handler frees the identifier.\<close>

lemma unknown_call_of_pointer:
  assumes "optprop (ev_data event) ''target'' = JStr ''valuApi''"
    and "optprop (ev_data event) ''name'' = JStr ''api:run-completed''"
    and "requests s (to_key (optprop (ev_data event) ''requestId'')) = Some (Pointer h)"
    and "apiCalls (pointers s ! h) (to_key (optprop (ev_data event) ''requestId'')) = None"
    and "to_key (optprop (ev_data event) ''requestId'') \<notin> set Map_members"
  shows "handleParentMessage beh event s =
            (Inr (), s\<lparr>console := console s @
                        [ConsoleError ''Failed to postRunResult for ''
                           (optprop (ev_data event) ''requestId'')],
                       requests := (requests s)(to_key (optprop (ev_data event) ''requestId'') := None)\<rparr>)"
  using assms
  by (simp add: handleParentMessage_def Let_def handle_run_completed_def postRunResult_def
      lookup_def)

text \<open>An identifier that is pending under an entry of the other kind is not unknown: the
  handler finds the entry and calls a method the entry does not have.\<close>

lemma reply_for_entry_of_other_kind:
  assumes "optprop (ev_data event) ''target'' = JStr ''valuApi''"
  shows "optprop (ev_data event) ''name'' = JStr ''api:run-completed'' \<Longrightarrow>
           requests s (to_key (optprop (ev_data event) ''requestId'')) = Some (Deferred p) \<Longrightarrow>
           handleParentMessage beh event s = (Inl TypeError, s)"
    and "optprop (ev_data event) ''name'' = JStr ''api:run-console-completed'' \<Longrightarrow>
           requests s (to_key (optprop (ev_data event) ''requestId'')) = Some (Pointer h) \<Longrightarrow>
           handleParentMessage beh event s = (Inl TypeError, s)"
    and "optprop (ev_data event) ''name'' = JStr ''api:pointer-created'' \<Longrightarrow>
           requests s (to_key (optprop (ev_data event) ''requestId'')) = Some (Pointer h) \<Longrightarrow>
           handleParentMessage beh event s = (Inl TypeError, s)"
  using assms
  by (simp_all add: handleParentMessage_def Let_def handle_run_console_completed_def
      handle_run_completed_def handle_pointer_created_def lookup_def)

text \<open>An identifier that is no key of \<open>#requests\<close> but names a member the table inherits is
  found all the same: whatever the kind of the reply, the handler throws, in every state,
  and writes nothing to the console.\<close>

lemma reply_for_inherited_member:
  assumes "optprop (ev_data event) ''target'' = JStr ''valuApi''"
    and "optprop (ev_data event) ''name'' \<in>
           {JStr ''api:run-console-completed'', JStr ''api:pointer-created'', JStr ''api:run-completed''}"
    and "requests s (to_key (optprop (ev_data event) ''requestId'')) = None"
    and "to_key (optprop (ev_data event) ''requestId'') \<in> set Map_members"
  shows "handleParentMessage beh event s = (Inl TypeError, s)"
  using assms
  by (auto simp: handleParentMessage_def Let_def handle_run_console_completed_def
      handle_run_completed_def handle_pointer_created_def lookup_def)

lemma stray_reply_fields:
  "optprop (ev_data (stray_reply name)) ''target'' = JStr ''valuApi''"
  "optprop (ev_data (stray_reply name)) ''name'' = JStr name"
  "to_key (optprop (ev_data (stray_reply name)) ''requestId'') = ''constructor''"
  by (simp_all add: stray_reply_def inbound_def)

text \<open>
  C4. The specification has every reply whose identifier is not pending dropped with a
  diagnostic, without a fault. The handler does so for the identifiers that name nothing
  in the table (the lemmas above), but \<open>#requests\<close> is a \<open>Map\<close> read as \<open>this.#requests[requestId]\<close>:
  the identifier \<open>constructor\<close>, which is not pending, reads as the inherited member. For each
  of \<open>api:run-console-completed\<close>, \<open>api:pointer-created\<close> and \<open>api:run-completed\<close> the handler
  then throws a \<open>TypeError\<close> and leaves the state, the console included, as it was.
\<close>

theorem reply_named_constructor_throws:
  "requests s_ready ''constructor'' = None
   \<and> handleParentMessage quiet (stray_reply ''api:run-console-completed'') s_ready
       = (Inl TypeError, s_ready)
   \<and> handleParentMessage quiet (stray_reply ''api:pointer-created'') s_ready
       = (Inl TypeError, s_ready)
   \<and> handleParentMessage quiet (stray_reply ''api:run-completed'') s_ready
       = (Inl TypeError, s_ready)"
proof -
  have a: "requests s_ready ''constructor'' = None" by (simp add: s_ready_fields)
  have m: "''constructor'' \<in> set Map_members" by (simp add: Map_members_def)
  have l: "lookup (requests s_ready) ''constructor'' = Inherited"
    using a m by (simp add: lookup_def)
  have "handleParentMessage quiet (stray_reply ''api:run-console-completed'') s_ready
          = (Inl TypeError, s_ready)"
    using l by (simp add: handleParentMessage_def Let_def stray_reply_fields
        handle_run_console_completed_def)
  moreover have "handleParentMessage quiet (stray_reply ''api:pointer-created'') s_ready
          = (Inl TypeError, s_ready)"
    using l by (simp add: handleParentMessage_def Let_def stray_reply_fields
        handle_pointer_created_def)
  moreover have "handleParentMessage quiet (stray_reply ''api:run-completed'') s_ready
          = (Inl TypeError, s_ready)"
    using l by (simp add: handleParentMessage_def Let_def stray_reply_fields
        handle_run_completed_def)
  ultimately show ?thesis using a by (intro conjI)
qed

section \<open>EventEmitter: one-shot listeners\<close>

lemma calls_of_append [simp]: "calls_of ps (xs @ ys) = calls_of ps xs @ calls_of ps ys"
  by (induction xs) (simp_all split: option.splits)

lemma calls_of_set:
  "x \<in> set (calls_of ps ls) \<Longrightarrow> \<exists>k. x = (Listener k, ps) \<and> Some k \<in> callback ` set ls"
  by (induction ls) (auto split: option.splits)

lemma mark_callback [simp]: "callback (mark l) = callback l"
  by (simp add: mark_def)

lemma set_map_filter_callback:
  "set (List.map_filter callback ls) = {c. Some c \<in> callback ` set ls}"
  by (induction ls) (force split: option.splits)+

lemma callbacks_alt: "callbacks evs n = {c. Some c \<in> callback ` set (listeners_of evs n)}"
  by (simp add: callbacks_def set_map_filter_callback)

lemma invocations_append [simp]:
  "invocations c (xs @ ys) = invocations c xs + invocations c ys"
  by (simp add: invocations_def)

lemma invocations_none: "\<forall>x\<in>set new. fst x \<noteq> Listener c \<Longrightarrow> invocations c new = 0"
  by (simp add: invocations_def)

lemma splice1_at: "splice1 (length pre) (pre @ l # rest) = pre @ rest"
  by (simp add: splice1_def)

text \<open>Splicing out the recorded positions, last first, leaves the entries that are not
  one-shot.\<close>

lemma splice_once_indices:
  "foldr splice1 (once_indices (length pre) ls) (pre @ ls) = pre @ filter (\<lambda>l. \<not> once l) ls"
proof (induction ls arbitrary: pre)
  case Nil
  then show ?case by simp
next
  case (Cons l ls)
  have "foldr splice1 (once_indices (Suc (length pre)) ls) (pre @ l # ls)
        = (pre @ [l]) @ filter (\<lambda>l. \<not> once l) ls"
    using Cons.IH [of "pre @ [l]"] by simp
  then show ?case by (simp add: splice1_at)
qed

text \<open>Whatever the loop does, it only calls callbacks of the list, with the parameters of
  the \<open>emit\<close>, and it keeps the callbacks of the entries.\<close>

lemma dispatch_trace:
  "dispatch beh ps ls i oL lv rv tr = (r, ls', tr') \<Longrightarrow>
     \<exists>new. tr' = tr @ new \<and> set new \<subseteq> set (calls_of ps ls) \<and> map callback ls' = map callback ls"
proof (induction ls arbitrary: i oL lv rv tr r ls' tr')
  case Nil
  then show ?case by simp
next
  case (Cons l ls)
  show ?case
  proof (cases "callback l")
    case None
    with Cons.prems obtain ls1 where
      d: "dispatch beh ps ls (Suc i) (oL @ [i]) lv (if lv \<noteq> Plain JUndefined then lv else rv) tr
            = (r, ls1, tr')"
      and l: "ls' = l\<lparr>once := True\<rparr> # ls1"
      by (auto split: prod.splits)
    from Cons.IH [OF d] show ?thesis using None l by auto
  next
    case (Some c)
    show ?thesis
    proof (cases "beh tr (Listener c) ps")
      case (Throws e)
      with Cons.prems Some show ?thesis by auto
    next
      case (Returns v)
      with Cons.prems Some obtain ls1 where
        d: "dispatch beh ps ls (Suc i) (if once l then oL @ [i] else oL) v
              (if v \<noteq> Plain JUndefined then v else rv) (tr @ [(Listener c, ps)]) = (r, ls1, tr')"
        and l: "ls' = l # ls1"
        by (auto split: prod.splits)
      from Cons.IH [OF d] show ?thesis using Some l by auto
    qed
  qed
qed

text \<open>A loop that ran to its end called every callback of the list, in order, and recorded
  the positions of the one-shot entries.\<close>

lemma dispatch_normal:
  "dispatch beh ps ls i oL lv rv tr = (Inr (oL', rv'), ls', tr') \<Longrightarrow>
     tr' = tr @ calls_of ps ls \<and> ls' = map mark ls \<and> oL' = oL @ once_indices i ls'"
proof (induction ls arbitrary: i oL lv rv tr ls' tr')
  case Nil
  then show ?case by simp
next
  case (Cons l ls)
  show ?case
  proof (cases "callback l")
    case None
    with Cons.prems obtain ls1 where
      d: "dispatch beh ps ls (Suc i) (oL @ [i]) lv (if lv \<noteq> Plain JUndefined then lv else rv) tr
            = (Inr (oL', rv'), ls1, tr')"
      and l: "ls' = l\<lparr>once := True\<rparr> # ls1"
      by (auto split: prod.splits)
    from Cons.IH [OF d] show ?thesis using None l by (simp add: mark_def)
  next
    case (Some c)
    show ?thesis
    proof (cases "beh tr (Listener c) ps")
      case (Throws e)
      with Cons.prems Some show ?thesis by auto
    next
      case (Returns v)
      with Cons.prems Some obtain ls1 where
        d: "dispatch beh ps ls (Suc i) (if once l then oL @ [i] else oL) v
              (if v \<noteq> Plain JUndefined then v else rv) (tr @ [(Listener c, ps)])
            = (Inr (oL', rv'), ls1, tr')"
        and l: "ls' = l # ls1"
        by (auto split: prod.splits)
      from Cons.IH [OF d] show ?thesis using Some l by (simp add: mark_def)
    qed
  qed
qed

lemma emit_pass_any:
  assumes "emit_pass beh n ps (evs, tr) = (r, evs', tr')"
  shows "(\<forall>m. callbacks evs' m \<subseteq> callbacks evs m)
       \<and> (\<exists>new. tr' = tr @ new \<and> (\<forall>x\<in>set new. \<exists>k\<in>callbacks evs n. x = (Listener k, ps)))"
proof (cases "evs n")
  case None
  with assms show ?thesis by (simp add: emit_pass_def)
next
  case (Some ls)
  obtain d ls' trd where
    d: "dispatch beh ps ls 0 [] (Plain JUndefined) (Plain JUndefined) tr = (d, ls', trd)"
    by (cases "dispatch beh ps ls 0 [] (Plain JUndefined) (Plain JUndefined) tr")
  from dispatch_trace [OF d] obtain new where
    new: "trd = tr @ new" "set new \<subseteq> set (calls_of ps ls)" and cb: "map callback ls' = map callback ls"
    by blast
  have cbset: "callback ` set ls' = callback ` set ls"
    using cb by (metis list.set_map)
  have tr': "tr' = trd" using assms Some d by (cases d) (auto simp: emit_pass_def)
  have calls: "\<forall>x\<in>set new. \<exists>k\<in>callbacks evs n. x = (Listener k, ps)"
    using new(2) Some calls_of_set by (fastforce simp: callbacks_alt listeners_of_def)
  have mono: "\<forall>m. callbacks evs' m \<subseteq> callbacks evs m"
  proof (cases d)
    case (Inl e)
    with assms Some d have "evs' = evs(n \<mapsto> ls')" by (simp add: emit_pass_def)
    then show ?thesis using cbset Some by (auto simp: callbacks_alt listeners_of_def)
  next
    case (Inr x)
    obtain oL rv where x: "x = (oL, rv)" by (cases x)
    from dispatch_normal [of beh ps ls 0 "[]" _ _ tr oL rv ls' trd] d Inr x
    have oL: "oL = once_indices 0 ls'" by simp
    have "splice_once oL ls' = filter (\<lambda>l. \<not> once l) ls'"
      using splice_once_indices [of "[]" ls'] oL by (simp add: splice_once_def)
    moreover from assms Some d Inr x have "evs' = evs(n \<mapsto> splice_once oL ls')"
      by (simp add: emit_pass_def)
    ultimately have "evs' = evs(n \<mapsto> filter (\<lambda>l. \<not> once l) ls')" by simp
    then show ?thesis using cbset Some by (auto simp: callbacks_alt listeners_of_def)
  qed
  show ?thesis using mono calls new(1) tr' by blast
qed

lemma emit_pass_other:
  assumes "emit_pass beh n ps (evs, tr) = (r, evs', tr')" and "m \<noteq> n"
  shows "evs' m = evs m"
  using assms by (auto simp: emit_pass_def split: option.splits prod.splits sum.splits)

lemma emit_pass_untouched:
  assumes "emit_pass beh n ps (evs, tr) = (r, evs', tr')" and "c \<notin> callbacks evs n"
  shows "invocations c tr' = invocations c tr"
proof -
  from emit_pass_any [OF assms(1)] obtain new where
    new: "tr' = tr @ new" "\<forall>x\<in>set new. \<exists>k\<in>callbacks evs n. x = (Listener k, ps)" by blast
  have "\<forall>x\<in>set new. fst x \<noteq> Listener c" using new(2) assms(2) by fastforce
  then show ?thesis using new(1) invocations_none by simp
qed

lemma emit_pass_once:
  assumes "emit_pass beh n ps (evs, tr) = (Inr v, evs', tr')"
    and "evs n = Some (ls @ [\<lparr>callback = Some c, once = True\<rparr>])"
    and "Some c \<notin> callback ` set ls"
  shows "invocations c tr' = Suc (invocations c tr) \<and> c \<notin> callbacks evs' n"
proof -
  let ?L = "\<lparr>callback = Some c, once = True\<rparr>"
  obtain d ls' trd where
    d: "dispatch beh ps (ls @ [?L]) 0 [] (Plain JUndefined) (Plain JUndefined) tr = (d, ls', trd)"
    by (cases "dispatch beh ps (ls @ [?L]) 0 [] (Plain JUndefined) (Plain JUndefined) tr")
  from assms(1,2) d obtain oL rv where dn: "d = Inr (oL, rv)"
    by (cases d) (auto simp: emit_pass_def)
  from dispatch_normal [of beh ps "ls @ [?L]" 0 "[]" _ _ tr oL rv ls' trd] d dn
  have trd: "trd = tr @ calls_of ps (ls @ [?L])" and ls': "ls' = map mark (ls @ [?L])"
    and oL: "oL = once_indices 0 ls'" by simp_all
  have spl: "splice_once oL ls' = filter (\<lambda>l. \<not> once l) ls'"
    using splice_once_indices [of "[]" ls'] oL by (simp add: splice_once_def)
  from assms(1,2) d dn have res: "tr' = trd" "evs' = evs(n \<mapsto> splice_once oL ls')"
    by (simp_all add: emit_pass_def)
  have "\<forall>x\<in>set (calls_of ps ls). fst x \<noteq> Listener c"
    using calls_of_set assms(3) by fastforce
  then have "invocations c (calls_of ps ls) = 0" by (rule invocations_none)
  then have inv: "invocations c tr' = Suc (invocations c tr)"
    using res(1) trd by (simp add: invocations_def)
  have "filter (\<lambda>l. \<not> once l) ls' = filter (\<lambda>l. \<not> once l) (map mark ls)"
    using ls' by (simp add: mark_def)
  then have "callback ` set (splice_once oL ls') \<subseteq> callback ` set ls"
    using spl by auto
  then have "c \<notin> callbacks evs' n"
    using res(2) assms(3) by (auto simp: callbacks_alt listeners_of_def)
  with inv show ?thesis by simp
qed

lemma emit_untouched:
  assumes e: "emit beh n ps (evs, tr) = (r, evs', tr')"
    and c: "c \<notin> callbacks evs n" "c \<notin> callbacks evs ''__before__''" "c \<notin> callbacks evs ''__after__''"
  shows "invocations c tr' = invocations c tr"
proof (cases "specialEvent n")
  case True
  with e have "emit_pass beh n ps (evs, tr) = (r, evs', tr')" by (simp add: emit_def)
  then show ?thesis using c(1) by (rule emit_pass_untouched)
next
  case False
  let ?qs = "AVal (JStr n) # ps"
  obtain r1 evs1 tr1 where p1: "emit_pass beh ''__before__'' ?qs (evs, tr) = (r1, evs1, tr1)"
    by (cases "emit_pass beh ''__before__'' ?qs (evs, tr)")
  have i1: "invocations c tr1 = invocations c tr" using p1 c(2) by (rule emit_pass_untouched)
  have m1: "\<forall>m. callbacks evs1 m \<subseteq> callbacks evs m" using emit_pass_any [OF p1] by blast
  show ?thesis
  proof (cases r1)
    case (Inl x)
    with e p1 False have "tr' = tr1" by (simp add: emit_def)
    with i1 show ?thesis by simp
  next
    case (Inr b)
    obtain r2 evs2 tr2 where p2: "emit_pass beh n ps (evs1, tr1) = (r2, evs2, tr2)"
      by (cases "emit_pass beh n ps (evs1, tr1)")
    have "c \<notin> callbacks evs1 n" using m1 c(1) by blast
    with p2 have i2: "invocations c tr2 = invocations c tr1" by (rule emit_pass_untouched)
    have m2: "\<forall>m. callbacks evs2 m \<subseteq> callbacks evs1 m" using emit_pass_any [OF p2] by blast
    show ?thesis
    proof (cases r2)
      case (Inl x)
      with e p1 p2 False Inr have "tr' = tr2" by (simp add: emit_def)
      with i1 i2 show ?thesis by simp
    next
      case r2: (Inr v)
      obtain r3 evs3 tr3 where p3: "emit_pass beh ''__after__'' ?qs (evs2, tr2) = (r3, evs3, tr3)"
        by (cases "emit_pass beh ''__after__'' ?qs (evs2, tr2)")
      have "c \<notin> callbacks evs2 ''__after__''" using m1 m2 c(3) by blast
      with p3 have i3: "invocations c tr3 = invocations c tr2" by (rule emit_pass_untouched)
      from e p1 p2 p3 False Inr r2 have "tr' = tr3" by (cases r3) (simp_all add: emit_def)
      with i1 i2 i3 show ?thesis by simp
    qed
  qed
qed

lemma callbacks_add_other:
  "m \<noteq> n \<Longrightarrow> callbacks (addEventListener n cb o_flag evs) m = callbacks evs m"
  by (simp add: callbacks_alt addEventListener_def listeners_of_def)

lemma emit_once:
  assumes e: "emit beh n ps (addEventListener n (Some c) True evs, tr) = (Inr v, evs', tr')"
    and c: "c \<notin> callbacks evs n" "c \<notin> callbacks evs ''__before__''" "c \<notin> callbacks evs ''__after__''"
  shows "invocations c tr' = Suc (invocations c tr)
       \<and> c \<notin> callbacks evs' n \<and> c \<notin> callbacks evs' ''__before__'' \<and> c \<notin> callbacks evs' ''__after__''"
proof -
  let ?A = "addEventListener n (Some c) True evs"
  let ?L = "\<lparr>callback = Some c, once = True\<rparr>"
  have An: "?A n = Some (listeners_of evs n @ [?L])" by (simp add: addEventListener_def)
  have fresh: "Some c \<notin> callback ` set (listeners_of evs n)" using c(1) by (simp add: callbacks_alt)
  show ?thesis
  proof (cases "specialEvent n")
    case True
    with e have p: "emit_pass beh n ps (?A, tr) = (Inr v, evs', tr')" by (simp add: emit_def)
    from emit_pass_once [OF p An fresh]
    have r: "invocations c tr' = Suc (invocations c tr)" "c \<notin> callbacks evs' n" by simp_all
    have "\<forall>m. m \<noteq> n \<longrightarrow> callbacks evs' m = callbacks evs m"
      using emit_pass_other [OF p] callbacks_add_other [of _ n "Some c" True evs]
      by (simp add: callbacks_alt listeners_of_def addEventListener_def)
    then show ?thesis using r c by metis
  next
    case False
    then have nb: "''__before__'' \<noteq> n" and na: "''__after__'' \<noteq> n"
      by (auto simp: specialEvent_def)
    let ?qs = "AVal (JStr n) # ps"
    obtain r1 evs1 tr1 where p1: "emit_pass beh ''__before__'' ?qs (?A, tr) = (r1, evs1, tr1)"
      by (cases "emit_pass beh ''__before__'' ?qs (?A, tr)")
    from e p1 False obtain b where r1: "r1 = Inr b" by (cases r1) (simp_all add: emit_def)
    have cb: "c \<notin> callbacks ?A ''__before__''" using c(2) nb callbacks_add_other by simp
    have ca: "c \<notin> callbacks ?A ''__after__''" using c(3) na callbacks_add_other by simp
    have i1: "invocations c tr1 = invocations c tr" using p1 cb by (rule emit_pass_untouched)
    have m1: "\<forall>m. callbacks evs1 m \<subseteq> callbacks ?A m" using emit_pass_any [OF p1] by blast
    have n1: "evs1 n = Some (listeners_of evs n @ [?L])"
      using emit_pass_other [OF p1, of n] nb An by simp
    obtain r2 evs2 tr2 where p2: "emit_pass beh n ps (evs1, tr1) = (r2, evs2, tr2)"
      by (cases "emit_pass beh n ps (evs1, tr1)")
    from e p1 p2 r1 False obtain v2 where r2: "r2 = Inr v2"
      by (cases r2) (simp_all add: emit_def)
    from emit_pass_once [OF p2 [unfolded r2] n1 fresh]
    have i2: "invocations c tr2 = Suc (invocations c tr1)" and g2: "c \<notin> callbacks evs2 n"
      by simp_all
    have m2: "\<forall>m. callbacks evs2 m \<subseteq> callbacks evs1 m" using emit_pass_any [OF p2] by blast
    obtain r3 evs3 tr3 where p3: "emit_pass beh ''__after__'' ?qs (evs2, tr2) = (r3, evs3, tr3)"
      by (cases "emit_pass beh ''__after__'' ?qs (evs2, tr2)")
    from e p1 p2 p3 r1 r2 False have res: "tr' = tr3" "evs' = evs3"
      by (cases r3; simp add: emit_def)+
    have "c \<notin> callbacks evs2 ''__after__''" using m1 m2 ca by blast
    with p3 have i3: "invocations c tr3 = invocations c tr2" by (rule emit_pass_untouched)
    have m3: "\<forall>m. callbacks evs3 m \<subseteq> callbacks evs2 m" using emit_pass_any [OF p3] by blast
    have "c \<notin> callbacks evs3 n" using m3 g2 by blast
    moreover have "c \<notin> callbacks evs3 ''__before__''" using m3 m2 m1 cb by blast
    moreover have "c \<notin> callbacks evs3 ''__after__''" using m3 m2 m1 ca by blast
    ultimately show ?thesis using res i1 i2 i3 by simp
  qed
qed

text \<open>
  C8, as the specification states it: a listener registered with \<open>once = true\<close> is invoked
  exactly once by two publishes. This fails for a listener that throws: the throw leaves
  \<open>emit\<close> before the one-shot entries are spliced out, so the listener is still registered
  and the second publish invokes it again.
\<close>

theorem throwing_once_listener_fires_twice:
  "invocations 1
     (snd (snd (emit failing ''e'' []
        (snd (emit failing ''e'' [] (addEventListener ''e'' (Some 1) True Map.empty, [])))))) = 2"
  by (simp add: emit_def emit_pass_def specialEvent_def addEventListener_def listeners_of_def
      failing_def invocations_def)

text \<open>
  C8, amended: let listener \<open>c\<close> be registered with \<open>once = true\<close> on event \<open>e\<close>, \<open>c\<close> not being
  the callback of another entry under \<open>e\<close> or under the two meta-events, and let the first
  publish of \<open>e\<close> return (no listener throws during it). Then the first publish invokes \<open>c\<close>
  exactly once and leaves it unregistered, and the second publish, whatever its outcome, does
  not invoke it: after both publishes \<open>c\<close> has been invoked exactly once.
\<close>

theorem once_listener_fires_once:
  assumes fresh: "c \<notin> callbacks evs e" "c \<notin> callbacks evs ''__before__''"
      "c \<notin> callbacks evs ''__after__''"
    and first: "emit beh e ps1 (addEventListener e (Some c) True evs, tr) = (Inr v, evs1, tr1)"
    and second: "emit beh e ps2 (evs1, tr1) = (r2, evs2, tr2)"
  shows "invocations c tr1 = Suc (invocations c tr) \<and> c \<notin> callbacks evs1 e
       \<and> invocations c tr2 = Suc (invocations c tr)"
proof -
  from emit_once [OF first fresh]
  have a: "invocations c tr1 = Suc (invocations c tr)" "c \<notin> callbacks evs1 e"
    "c \<notin> callbacks evs1 ''__before__''" "c \<notin> callbacks evs1 ''__after__''" by simp_all
  from emit_untouched [OF second a(2,3,4)] a show ?thesis by simp
qed

theorem once_listener_fires_once_witness:
  "invocations 1 [(Listener 1, [])] = Suc (invocations 1 [])
   \<and> 1 \<notin> callbacks (Map.empty(''e'' \<mapsto> [])) ''e''
   \<and> emit quiet ''e'' [] (addEventListener ''e'' (Some 1) True Map.empty, []) =
       (Inr (Fulfilled JUndefined), Map.empty(''e'' \<mapsto> []), [(Listener 1, [])])
   \<and> emit quiet ''e'' [] (Map.empty(''e'' \<mapsto> []), [(Listener 1, [])]) =
       (Inr (Plain JUndefined), Map.empty(''e'' \<mapsto> []), [(Listener 1, [])])"
proof -
  have f: "1 \<notin> callbacks Map.empty ''e''" "1 \<notin> callbacks Map.empty ''__before__''"
    "1 \<notin> callbacks Map.empty ''__after__''"
    by (simp_all add: callbacks_def listeners_of_def)
  have a: "emit quiet ''e'' [] (addEventListener ''e'' (Some 1) True Map.empty, []) =
       (Inr (Fulfilled JUndefined), Map.empty(''e'' \<mapsto> []), [(Listener 1, [])])"
    by (simp add: emit_def emit_pass_def specialEvent_def addEventListener_def listeners_of_def
        quiet_def splice_once_def splice1_def)
  have b: "emit quiet ''e'' [] (Map.empty(''e'' \<mapsto> []), [(Listener 1, [])]) =
       (Inr (Plain JUndefined), Map.empty(''e'' \<mapsto> []), [(Listener 1, [])])"
    by (simp add: emit_def emit_pass_def specialEvent_def splice_once_def)
  from once_listener_fires_once [OF f a b] a b show ?thesis by simp
qed

section \<open>The readiness message and the launch intent\<close>

lemma handle_ready_steps:
  assumes a: "getprop message ''applicationId'' = Inr a"
    and sh: "applicationInstance s = Some sh"
    and em: "emit beh API_READY [] (eventEmitter s, calls s) = (r, evs, tr)"
  shows "handle_ready beh event message s =
     (case r of
        Inl e \<Rightarrow>
          (Inl e, s\<lparr>valuApplication :=
                      \<lparr>ep_id = a, ep_source = ev_source event, ep_origin = Some (ev_origin event)\<rparr>,
                    eventEmitter := evs, calls := tr\<rparr>)
      | Inr v \<Rightarrow>
          (case beh tr (Shell sh OnCreate)
                  [AIntent (Intent_new a (optprop message ''action'') (optprop message ''params''))] of
             Throws e \<Rightarrow>
               (Inl e, s\<lparr>valuApplication :=
                           \<lparr>ep_id = a, ep_source = ev_source event, ep_origin = Some (ev_origin event)\<rparr>,
                         eventEmitter := evs,
                         calls := tr @ [(Shell sh OnCreate,
                           [AIntent (Intent_new a (optprop message ''action'')
                                       (optprop message ''params''))])]\<rparr>)
           | Returns x \<Rightarrow>
               (Inr (), s\<lparr>valuApplication :=
                            \<lparr>ep_id = a, ep_source = ev_source event, ep_origin = Some (ev_origin event)\<rparr>,
                          eventEmitter := evs,
                          calls := tr @ [(Shell sh OnCreate,
                            [AIntent (Intent_new a (optprop message ''action'')
                                        (optprop message ''params''))])],
                          lastIntent := Some (Intent_new a (optprop message ''action'')
                                                (optprop message ''params''))\<rparr>)))"
  using a sh em
  by (simp add: handle_ready_def emit_event_def call_shell_def invoke_def Let_def
      split: sum.splits outcome.splits)

text \<open>
  C10. Handling a readiness message (with a payload that is not \<open>undefined\<close> or \<open>null\<close>, and a
  shell bound) goes through these steps in this order. The endpoint is captured first: it is
  set whatever happens later. Then \<open>api:ready\<close> is emitted with no arguments; if a listener
  throws, the handler ends there, with no call of the shell and no last intent recorded.
  Then \<open>onCreate\<close> of the shell is called with the launch intent, after every call of a
  listener; if it throws, the handler ends there and no last intent is recorded. Only when
  \<open>onCreate\<close> has returned is the intent recorded as the last intent.
\<close>

theorem readiness_steps_in_order:
  assumes "is_ready event"
    and "message = optprop (ev_data event) ''message''"
    and "getprop message ''applicationId'' = Inr a"
    and "applicationInstance s = Some sh"
    and "emit beh API_READY [] (eventEmitter s, calls s) = (r, evs, tr)"
    and "intent = Intent_new a (optprop message ''action'') (optprop message ''params'')"
    and "captured = s\<lparr>valuApplication :=
            \<lparr>ep_id = a, ep_source = ev_source event, ep_origin = Some (ev_origin event)\<rparr>\<rparr>"
  shows "handleParentMessage beh event s =
     (case r of
        Inl e \<Rightarrow> (Inl e, captured\<lparr>eventEmitter := evs, calls := tr\<rparr>)
      | Inr v \<Rightarrow>
          (case beh tr (Shell sh OnCreate) [AIntent intent] of
             Throws e \<Rightarrow>
               (Inl e, captured\<lparr>eventEmitter := evs,
                                calls := tr @ [(Shell sh OnCreate, [AIntent intent])]\<rparr>)
           | Returns x \<Rightarrow>
               (Inr (), captured\<lparr>eventEmitter := evs,
                                 calls := tr @ [(Shell sh OnCreate, [AIntent intent])],
                                 lastIntent := Some intent\<rparr>)))"
proof -
  have "handleParentMessage beh event s = handle_ready beh event message s"
    using assms(1,2) by (simp add: handleParentMessage_def is_ready_def Let_def)
  then show ?thesis
    using handle_ready_steps [OF assms(3,4,5), of event] assms(6,7)
    by (simp split: sum.splits outcome.splits)
qed

lemma launch_event_fields:
  "is_ready launch_event"
  "optprop (ev_data launch_event) ''message'' = JObj [(''applicationId'', JStr ''app'')]"
  "ev_source launch_event = Some 0" "ev_origin launch_event = ''https://host''"
  by (simp_all add: launch_event_def inbound_def is_ready_def)

lemma s_listening_fields:
  "applicationInstance s_listening = Some 5" "calls s_listening = []"
  "eventEmitter s_listening = [''api:ready'' \<mapsto> [\<lparr>callback = Some 1, once = False\<rparr>]]"
  by (simp_all add: s_listening_def api_addEventListener_def addEventListener_def listeners_of_def
      new_ValuApi_def API_READY_def)

lemma s_listening_emit:
  "emit quiet API_READY [] (eventEmitter s_listening, calls s_listening) =
     (Inr (Fulfilled JUndefined), eventEmitter s_listening, [(Listener 1, [])])"
  "emit failing API_READY [] (eventEmitter s_listening, calls s_listening) =
     (Inl (Raw (JStr ''boom'')), eventEmitter s_listening, [(Listener 1, [])])"
  "emit failing_shell API_READY [] (eventEmitter s_listening, calls s_listening) =
     (Inr (Plain JUndefined), eventEmitter s_listening, [(Listener 1, [])])"
  by (simp_all add: s_listening_fields emit_def emit_pass_def specialEvent_def API_READY_def
      quiet_def failing_def failing_shell_def splice_once_def)

theorem readiness_steps_in_order_witness:
  "handleParentMessage quiet launch_event s_listening =
     (Inr (),
      s_listening
        \<lparr>valuApplication :=
           \<lparr>ep_id = JStr ''app'', ep_source = Some 0, ep_origin = Some ''https://host''\<rparr>,
         eventEmitter := eventEmitter s_listening,
         calls := [(Listener 1, []),
                   (Shell 5 OnCreate,
                    [AIntent \<lparr>applicationId = JStr ''app'', action = JStr ''open'', params = JObj []\<rparr>])],
         lastIntent := Some \<lparr>applicationId = JStr ''app'', action = JStr ''open'', params = JObj []\<rparr>\<rparr>)
   \<and> handleParentMessage failing launch_event s_listening =
     (Inl (Raw (JStr ''boom'')),
      s_listening
        \<lparr>valuApplication :=
           \<lparr>ep_id = JStr ''app'', ep_source = Some 0, ep_origin = Some ''https://host''\<rparr>,
         eventEmitter := eventEmitter s_listening,
         calls := [(Listener 1, [])]\<rparr>)
   \<and> handleParentMessage failing_shell launch_event s_listening =
     (Inl (Raw (JStr ''boom'')),
      s_listening
        \<lparr>valuApplication :=
           \<lparr>ep_id = JStr ''app'', ep_source = Some 0, ep_origin = Some ''https://host''\<rparr>,
         eventEmitter := eventEmitter s_listening,
         calls := [(Listener 1, []),
                   (Shell 5 OnCreate,
                    [AIntent \<lparr>applicationId = JStr ''app'', action = JStr ''open'', params = JObj []\<rparr>])]\<rparr>)"
proof -
  let ?m = "JObj [(''applicationId'', JStr ''app'')]"
  have m: "?m = optprop (ev_data launch_event) ''message''" by (simp add: launch_event_fields)
  have a: "getprop ?m ''applicationId'' = Inr (JStr ''app'')" by simp
  have i: "\<lparr>applicationId = JStr ''app'', action = JStr ''open'', params = JObj []\<rparr> =
      Intent_new (JStr ''app'') (optprop ?m ''action'') (optprop ?m ''params'')"
    by (simp add: Intent_new_def ACTION_OPEN_def)
  have c: "s_listening\<lparr>valuApplication :=
               \<lparr>ep_id = JStr ''app'', ep_source = Some 0, ep_origin = Some ''https://host''\<rparr>\<rparr> =
           s_listening\<lparr>valuApplication :=
               \<lparr>ep_id = JStr ''app'', ep_source = ev_source launch_event,
                  ep_origin = Some (ev_origin launch_event)\<rparr>\<rparr>"
    by (simp add: launch_event_fields)
  note w1 = readiness_steps_in_order [OF launch_event_fields(1) m a s_listening_fields(1)
      s_listening_emit(1) i c]
  note w2 = readiness_steps_in_order [OF launch_event_fields(1) m a s_listening_fields(1)
      s_listening_emit(2) i c]
  note w3 = readiness_steps_in_order [OF launch_event_fields(1) m a s_listening_fields(1)
      s_listening_emit(3) i c]
  have "handleParentMessage quiet launch_event s_listening =
     (Inr (),
      s_listening
        \<lparr>valuApplication :=
           \<lparr>ep_id = JStr ''app'', ep_source = Some 0, ep_origin = Some ''https://host''\<rparr>,
         eventEmitter := eventEmitter s_listening,
         calls := [(Listener 1, []),
                   (Shell 5 OnCreate,
                    [AIntent \<lparr>applicationId = JStr ''app'', action = JStr ''open'', params = JObj []\<rparr>])],
         lastIntent := Some \<lparr>applicationId = JStr ''app'', action = JStr ''open'', params = JObj []\<rparr>\<rparr>)"
    unfolding w1 by (simp add: quiet_def)
  moreover have "handleParentMessage failing launch_event s_listening =
     (Inl (Raw (JStr ''boom'')),
      s_listening
        \<lparr>valuApplication :=
           \<lparr>ep_id = JStr ''app'', ep_source = Some 0, ep_origin = Some ''https://host''\<rparr>,
         eventEmitter := eventEmitter s_listening,
         calls := [(Listener 1, [])]\<rparr>)"
    unfolding w2 by simp
  moreover have "handleParentMessage failing_shell launch_event s_listening =
     (Inl (Raw (JStr ''boom'')),
      s_listening
        \<lparr>valuApplication :=
           \<lparr>ep_id = JStr ''app'', ep_source = Some 0, ep_origin = Some ''https://host''\<rparr>,
         eventEmitter := eventEmitter s_listening,
         calls := [(Listener 1, []),
                   (Shell 5 OnCreate,
                    [AIntent \<lparr>applicationId = JStr ''app'', action = JStr ''open'', params = JObj []\<rparr>])]\<rparr>)"
    unfolding w3 by (simp add: failing_shell_def)
  ultimately show ?thesis by (intro conjI)
qed

section \<open>Binding the shell after the launch\<close>

lemma handle_ready_done:
  assumes "handle_ready beh event message s = (Inr (), s1)"
  shows "lastIntent s1 = Some (Intent_new (optprop message ''applicationId'')
            (optprop message ''action'') (optprop message ''params''))"
proof -
  from assms obtain a where a: "getprop message ''applicationId'' = Inr a"
    by (cases "getprop message ''applicationId''") (simp_all add: handle_ready_def)
  then have "a = optprop message ''applicationId''" by (rule getprop_optprop)
  with assms a show ?thesis
    by (auto simp: handle_ready_def Let_def split: sum.splits prod.splits)
qed

lemma setApplication_calls:
  assumes "lastIntent s = Some intent"
  shows "calls (snd (setApplication beh shell s)) = calls s @ [(Shell shell OnCreate, [AIntent intent])]"
  using assms
  by (simp add: setApplication_def invoke_def Let_def split: outcome.splits retval.splits)

text \<open>
  C7. Once a readiness message has been processed (the handler returned), its launch intent
  is the last intent, and \<open>setApplication(shell)\<close> calls \<open>shell.onCreate\<close> at once, with the
  intent built from the \<open>applicationId\<close>, \<open>action\<close> and \<open>params\<close> of that message.
\<close>

theorem setApplication_replays_launch_intent:
  assumes "is_ready event"
    and "deliver beh event s = (Inr (), s1)"
    and "message = optprop (ev_data event) ''message''"
  shows "lastIntent s1 = Some (Intent_new (optprop message ''applicationId'')
                                 (optprop message ''action'') (optprop message ''params''))
       \<and> applicationInstance (snd (setApplication beh shell s1)) = Some shell
       \<and> calls (snd (setApplication beh shell s1)) =
           calls s1 @ [(Shell shell OnCreate,
             [AIntent (Intent_new (optprop message ''applicationId'')
                                  (optprop message ''action'') (optprop message ''params''))])]"
proof -
  obtain s0 where h: "handle_ready beh event message s = (Inr (), s0)"
    and s1: "s1 = run_microtasks s0"
    using assms
    by (auto simp: deliver_def handleParentMessage_def is_ready_def Let_def split: prod.splits)
  have l: "lastIntent s1 = lastIntent s0" using s1 run_microtasks_frame by simp
  have "applicationInstance (snd (setApplication beh shell s1)) = Some shell"
    by (simp add: setApplication_def invoke_def Let_def
        split: option.splits outcome.splits retval.splits)
  with handle_ready_done [OF h] l show ?thesis by (simp add: setApplication_calls)
qed

theorem setApplication_replays_launch_intent_witness:
  "lastIntent s_ready = Some \<lparr>applicationId = JStr ''app'', action = JStr ''open'', params = JObj []\<rparr>
   \<and> applicationInstance (snd (setApplication quiet 5 s_ready)) = Some 5
   \<and> calls (snd (setApplication quiet 5 s_ready)) =
       [(Shell 5 OnCreate,
         [AIntent \<lparr>applicationId = JStr ''app'', action = JStr ''open'', params = JObj []\<rparr>])]"
proof -
  let ?m = "JObj [(''applicationId'', JStr ''app'')]"
  have d: "deliver quiet launch_event new_ValuApi = (Inr (), s_ready)"
    by (simp add: s_ready_eval launch_event_def quiet_def run_defs)
  have m: "?m = optprop (ev_data launch_event) ''message''" by (simp add: launch_event_fields)
  have i: "Intent_new (optprop ?m ''applicationId'') (optprop ?m ''action'') (optprop ?m ''params'') =
      \<lparr>applicationId = JStr ''app'', action = JStr ''open'', params = JObj []\<rparr>"
    by (simp add: Intent_new_def ACTION_OPEN_def)
  from setApplication_replays_launch_intent [OF launch_event_fields(1) d m, of 5]
  show ?thesis unfolding i by (simp add: s_ready_fields)
qed

section \<open>New intents\<close>

lemma new_intent_posts_nothing:
  "outbox (snd (handle_new_intent beh message s)) = outbox s"
  by (simp add: handle_new_intent_def split: sum.splits)

text \<open>
  C2. The handler of \<open>api:new-intent\<close> builds the intent and calls \<open>onNewIntent\<close> of the bound
  shell, and that is all: what the shell returns is dropped. In this run the shell answers
  \<open>{handled: true}\<close> to the intent (\<open>app\<close>, \<open>view\<close>, \<open>{roomId: "1234"}\<close>); the handler returns,
  the call is recorded, and nothing is posted to the host.
\<close>

theorem new_intent_answer_is_not_posted:
  "answering (calls s_shell) (Shell 5 OnNewIntent)
      [AIntent \<lparr>applicationId = JStr ''app'', action = JStr ''view'',
                 params = JObj [(''roomId'', JStr ''1234'')]\<rparr>]
     = Returns (Fulfilled (JObj [(''handled'', JBool True)]))
   \<and> fst (deliver answering new_intent_event s_shell) = Inr ()
   \<and> calls (snd (deliver answering new_intent_event s_shell)) =
       calls s_shell @
         [(Shell 5 OnNewIntent,
           [AIntent \<lparr>applicationId = JStr ''app'', action = JStr ''view'',
                      params = JObj [(''roomId'', JStr ''1234'')]\<rparr>])]
   \<and> outbox s_shell = []
   \<and> outbox (snd (deliver answering new_intent_event s_shell)) = []"
  by (simp add: s_shell_eval s_ready_eval new_intent_event_def answering_def run_defs)

section \<open>The identifier of a pointer\<close>

lemma s_requested_eval:
  "outbox s_requested =
     [(0, Some ''https://host'',
       JObj [(''name'', JStr ''api:create-pointer''),
             (''message'', JObj [(''guid'', JStr ''guid-0''), (''api'', JStr ''x''),
                                 (''version'', JNum 2), (''requestId'', JNum 0)])])]
   \<and> fst (getApi (JStr ''x'') (JNum 2) s_ready) = Follows 1
   \<and> promises s_requested = [None, None]
   \<and> awaiting s_requested = [(0, GetApiRest (JStr ''x'') (JStr ''guid-0'') 1)]
   \<and> requests s_requested ''0'' = Some (Deferred 0)
   \<and> pointers s_requested = [] \<and> guid_counter s_requested = 1 \<and> id_counter s_requested = 1"
  by (simp add: s_requested_def s_ready_eval run_defs)

lemma s_bound_eval:
  "promises s_bound = [Some (Resolved (JObj [(''version'', JNum 3)])), Some (ResolvedPointer 0)]
   \<and> pointers s_bound =
       [\<lparr>apiName = JStr ''x'', version = JNum 3, guid = JStr ''guid-1'',
         runRequest = Val (JStr ''guid-0''), apiCalls = Map.empty, pointer_events = Map.empty\<rparr>]
   \<and> outbox s_bound = outbox s_requested \<and> id_counter s_bound = 1"
  by (simp add: s_bound_def s_requested_def s_ready_eval pointer_created_event_def quiet_def run_defs)

text \<open>
  C1. \<open>getApi("x", 2)\<close> on a connected client, answered by \<open>{version: 3}\<close>: the registration
  request carries the identifier \<open>guid-0\<close>, the first result of \<open>guid4()\<close>. The constructor of
  \<open>APIPointer\<close> binds the third argument of the call, that identifier, to \<open>runRequest\<close>, and
  takes a second result of \<open>guid4()\<close> as the pointer's \<open>guid\<close>: \<open>guid-1\<close>. A \<open>run\<close> on the pointer
  then throws a \<open>TypeError\<close> (its \<open>#runRequest\<close> is a string) and posts nothing.
\<close>

theorem pointer_guid_is_not_the_registered_one:
  "outbox s_requested =
     [(0, Some ''https://host'',
       JObj [(''name'', JStr ''api:create-pointer''),
             (''message'', JObj [(''guid'', JStr ''guid-0''), (''api'', JStr ''x''),
                                 (''version'', JNum 2), (''requestId'', JNum 0)])])]
   \<and> operation_state s_bound (fst (getApi (JStr ''x'') (JNum 2) s_ready)) = Some (ResolvedPointer 0)
   \<and> guid (pointers s_bound ! 0) = JStr ''guid-1''
   \<and> runRequest (pointers s_bound ! 0) = Val (JStr ''guid-0'')
   \<and> fst (run 0 (JStr ''open'') (JStr ''text_chat'') s_bound) = Inl TypeError
   \<and> outbox (snd (run 0 (JStr ''open'') (JStr ''text_chat'') s_bound)) = outbox s_requested"
  using s_requested_eval s_bound_eval
  by (simp add: promise_state_def run_def createDeferred_def nextId_def)

section \<open>Settled promises\<close>

lemma promise_state_settle:
  "promise_state (settle q v s) p =
     (if p = q \<and> promise_state s p = None \<and> p < length (promises s) then Some v
      else promise_state s p)"
  by (auto simp: promise_state_def settle_def)

lemma APIPointer_new_promise_state [simp]:
  "promise_state (snd (APIPointer_new n v r rest s)) p = promise_state s p"
  by (simp add: APIPointer_new_def guid4_def promise_state_def)

lemma getApi_rest_promise_other:
  "q' \<noteq> q \<Longrightarrow> promise_state (getApi_rest n g q' x s) q = promise_state s q"
  by (cases x) (simp_all add: promise_state_settle split_beta split: sum.splits)

lemma getApi_rest_settled:
  "promise_state s p = Some y \<Longrightarrow> promise_state (getApi_rest n g q x s) p = Some y"
  by (cases x) (simp_all add: promise_state_settle split_beta split: sum.splits)

lemma getApi_rest_length [simp]:
  "length (promises (getApi_rest n g q x s)) = length (promises s)"
  by (cases x) (auto simp: APIPointer_new_def guid4_def split: sum.splits)

text \<open>A settled promise keeps what it settled with through the microtasks.\<close>

lemma run_settled_settled:
  "run_settled ws s = (ws', s') \<Longrightarrow> promise_state s p = Some y \<Longrightarrow> promise_state s' p = Some y"
proof (induction ws arbitrary: s ws')
  case Nil
  then show ?case by simp
next
  case (Cons w ws)
  obtain p' k where w: "w = (p', k)" by (cases w)
  obtain n g q where k: "k = GetApiRest n g q" by (cases k)
  show ?case
  proof (cases "promise_state s p'")
    case None
    with Cons.prems w obtain ws1 where "run_settled ws s = (ws1, s')"
      by (auto split: prod.splits)
    then show ?thesis using Cons.IH Cons.prems(2) by blast
  next
    case (Some x)
    with Cons.prems w k have r: "run_settled ws (getApi_rest n g q x s) = (ws', s')" by simp
    show ?thesis using Cons.IH [OF r] getApi_rest_settled [OF Cons.prems(2)] by simp
  qed
qed

lemma run_microtasks_settled:
  assumes "promise_state s p = Some y"
  shows "promise_state (run_microtasks s) p = Some y"
proof -
  obtain ws' s' where r: "run_settled (awaiting s) (s\<lparr>awaiting := []\<rparr>) = (ws', s')"
    by (cases "run_settled (awaiting s) (s\<lparr>awaiting := []\<rparr>)")
  have a: "promise_state (s\<lparr>awaiting := []\<rparr>) p = promise_state s p"
    by (simp add: promise_state_def)
  have b: "promise_state (s'\<lparr>awaiting := ws' @ awaiting s'\<rparr>) p = promise_state s' p"
    by (simp add: promise_state_def)
  from run_settled_settled [OF r] a assms have "promise_state s' p = Some y" by simp
  then show ?thesis using b by (simp add: run_microtasks_def r)
qed

section \<open>Console commands\<close>

text \<open>
  C6. On a connected client \<open>runConsoleCommand\<close> posts the request and hands out a pending
  promise; when the host answers that request, the promise is resolved with exactly the
  payload of the answer, whatever it is (a success value, an error text, an object with an
  \<open>error\<close> field): no payload makes it reject.
\<close>

theorem console_command_resolves_with_reply:
  assumes src: "ep_source (valuApplication s) = Some w"
    and tgt: "optprop (ev_data event) ''target'' = JStr ''valuApi''"
    and nm: "optprop (ev_data event) ''name'' = JStr ''api:run-console-completed''"
    and rid: "to_key (optprop (ev_data event) ''requestId'') = to_key (JNum (int (id_counter s)))"
  shows "fst (runConsoleCommand command s) = Follows (length (promises s))
       \<and> operation_state (snd (runConsoleCommand command s)) (fst (runConsoleCommand command s)) = None
       \<and> outbox (snd (runConsoleCommand command s)) = outbox s @
           [(w, ep_origin (valuApplication s),
             JObj [(''name'', JStr ''api:run-console''),
                   (''message'', JObj [(''requestId'', JNum (int (id_counter s))),
                                       (''command'', command)])])]
       \<and> fst (deliver beh event (snd (runConsoleCommand command s))) = Inr ()
       \<and> operation_state (snd (deliver beh event (snd (runConsoleCommand command s))))
            (fst (runConsoleCommand command s)) = Some (Resolved (optprop (ev_data event) ''message''))"
proof -
  let ?p = "length (promises s)"
  let ?k = "to_key (JNum (int (id_counter s)))"
  let ?s1 = "snd (runConsoleCommand command s)"
  have op: "fst (runConsoleCommand command s) = Follows ?p"
    using src by (simp add: runConsoleCommand_def createDeferred_def nextId_def postToValuApp_def)
  have s1: "promises ?s1 = promises s @ [None]" "requests ?s1 ?k = Some (Deferred ?p)"
    "outbox ?s1 = outbox s @
           [(w, ep_origin (valuApplication s),
             JObj [(''name'', JStr ''api:run-console''),
                   (''message'', JObj [(''requestId'', JNum (int (id_counter s))),
                                       (''command'', command)])])]"
    using src by (simp_all add: runConsoleCommand_def createDeferred_def nextId_def postToValuApp_def)
  have pend: "operation_state ?s1 (Follows ?p) = None"
    using s1(1) by (simp add: promise_state_def)
  obtain r s2 where h: "handleParentMessage beh event ?s1 = (r, s2)"
    by (cases "handleParentMessage beh event ?s1")
  have hr: "r = Inr ()"
    and hs: "promise_state s2 ?p = Some (Resolved (optprop (ev_data event) ''message''))"
    using h tgt nm rid s1(1,2)
    by (auto simp: handleParentMessage_def Let_def handle_run_console_completed_def lookup_def
        promise_state_def settle_def)
  have "promise_state (run_microtasks s2) ?p = Some (Resolved (optprop (ev_data event) ''message''))"
    using hs by (rule run_microtasks_settled)
  then show ?thesis using op pend s1(3) h hr by (simp add: deliver_def)
qed

theorem console_command_resolves_with_reply_witness:
  "fst (runConsoleCommand (JStr ''bad'') s_ready) = Follows 0
   \<and> operation_state (snd (runConsoleCommand (JStr ''bad'') s_ready)) (Follows 0) = None
   \<and> fst (deliver quiet console_reply_event (snd (runConsoleCommand (JStr ''bad'') s_ready))) = Inr ()
   \<and> operation_state (snd (deliver quiet console_reply_event (snd (runConsoleCommand (JStr ''bad'') s_ready))))
        (Follows 0) = Some (Resolved (JStr ''ERROR: unknown command''))"
proof -
  have src: "ep_source (valuApplication s_ready) = Some 0" by (simp add: s_ready_fields)
  have e: "optprop (ev_data console_reply_event) ''target'' = JStr ''valuApi''"
    "optprop (ev_data console_reply_event) ''name'' = JStr ''api:run-console-completed''"
    "to_key (optprop (ev_data console_reply_event) ''requestId'') = to_key (JNum (int (id_counter s_ready)))"
    "optprop (ev_data console_reply_event) ''message'' = JStr ''ERROR: unknown command''"
    by (simp_all add: console_reply_event_def inbound_def s_ready_fields)
  note w = console_command_resolves_with_reply [OF src e(1,2,3), of "JStr ''bad''" quiet]
  have f: "fst (runConsoleCommand (JStr ''bad'') s_ready) = Follows 0"
    using w by (simp add: s_ready_fields)
  show ?thesis using w unfolding f e(4) by simp
qed

section \<open>Waiting continuations\<close>

text \<open>A new client has no waiting continuation, and every operation and every delivered
  message keeps the promises of the waiting continuations in existence.\<close>

lemma awaiting_ok_new: "awaiting_ok new_ValuApi"
  by (simp add: awaiting_ok_def new_ValuApi_def)

lemma run_settled_kept:
  "run_settled ws s = (ws', s') \<Longrightarrow> set ws' \<subseteq> set ws \<and> length (promises s') = length (promises s)"
proof (induction ws arbitrary: s ws')
  case Nil
  then show ?case by simp
next
  case (Cons w ws)
  obtain p k where w: "w = (p, k)" by (cases w)
  obtain n g q where k: "k = GetApiRest n g q" by (cases k)
  show ?case
  proof (cases "promise_state s p")
    case None
    with Cons.prems w obtain ws1 where r: "run_settled ws s = (ws1, s')" and "ws' = (p, k) # ws1"
      by (auto split: prod.splits)
    with Cons.IH [OF r] w show ?thesis by auto
  next
    case (Some x)
    with Cons.prems w k have r: "run_settled ws (getApi_rest n g q x s) = (ws', s')" by simp
    from Cons.IH [OF r] show ?thesis by auto
  qed
qed

lemma awaiting_ok_microtasks: "awaiting_ok s \<Longrightarrow> awaiting_ok (run_microtasks s)"
proof -
  assume ok: "awaiting_ok s"
  obtain ws' s' where r: "run_settled (awaiting s) (s\<lparr>awaiting := []\<rparr>) = (ws', s')"
    by (cases "run_settled (awaiting s) (s\<lparr>awaiting := []\<rparr>)")
  from run_settled_kept [OF r] run_settled_frame [OF r]
  have "set ws' \<subseteq> set (awaiting s)" "length (promises s') = length (promises s)" "awaiting s' = []"
    by simp_all
  then show ?thesis using ok by (auto simp: awaiting_ok_def run_microtasks_def r)
qed

lemma emit_event_awaiting [simp]: "awaiting (snd (emit_event beh n ps s)) = awaiting s"
  by (simp add: emit_event_def split_beta)

lemma call_shell_awaiting [simp]: "awaiting (snd (call_shell beh m args s)) = awaiting s"
  by (simp add: call_shell_def invoke_def split: option.splits outcome.splits)

lemma handler_shape:
  "awaiting (snd (handleParentMessage beh event s)) = awaiting s
   \<and> length (promises (snd (handleParentMessage beh event s))) = length (promises s)"
proof -
  let ?m = "optprop (ev_data event) ''message''"
  let ?i = "optprop (ev_data event) ''requestId''"
  have ready: "awaiting (snd (handle_ready beh event ?m s)) = awaiting s
     \<and> length (promises (snd (handle_ready beh event ?m s))) = length (promises s)"
  proof (cases "getprop ?m ''applicationId''")
    case (Inl e)
    then show ?thesis by (simp add: handle_ready_def)
  next
    case (Inr a)
    let ?s1 = "s\<lparr>valuApplication :=
                   \<lparr>ep_id = a, ep_source = ev_source event, ep_origin = Some (ev_origin event)\<rparr>\<rparr>"
    let ?n = "Intent_new a (optprop ?m ''action'') (optprop ?m ''params'')"
    obtain r s2 where e: "emit_event beh API_READY [] ?s1 = (r, s2)"
      by (cases "emit_event beh API_READY [] ?s1")
    have s2: "awaiting s2 = awaiting s" "promises s2 = promises s"
      using emit_event_awaiting [of beh API_READY "[]" ?s1]
        emit_event_frame(7) [of beh API_READY "[]" ?s1] e by simp_all
    obtain r3 s3 where c: "call_shell beh OnCreate [AIntent ?n] s2 = (r3, s3)"
      by (cases "call_shell beh OnCreate [AIntent ?n] s2")
    have s3: "awaiting s3 = awaiting s2" "promises s3 = promises s2"
      using call_shell_awaiting [of beh OnCreate "[AIntent ?n]" s2]
        call_shell_frame(8) [of beh OnCreate "[AIntent ?n]" s2] c by simp_all
    show ?thesis
    proof (cases r)
      case (Inl x)
      then show ?thesis using Inr e s2 by (simp add: handle_ready_def)
    next
      case r: (Inr v)
      show ?thesis using Inr r e c s2 s3 by (cases r3) (simp_all add: handle_ready_def)
    qed
  qed
  have trigger: "awaiting (snd (handle_trigger beh ?m s)) = awaiting s
     \<and> length (promises (snd (handle_trigger beh ?m s))) = length (promises s)"
  proof (cases "getprop ?m ''action''")
    case (Inl e)
    then show ?thesis by (simp add: handle_trigger_def)
  next
    case (Inr a)
    let ?d = "[AVal (optprop ?m ''data'')]"
    obtain r s1 where e: "emit_event beh ON_ROUTE ?d s = (r, s1)"
      by (cases "emit_event beh ON_ROUTE ?d s")
    have s1: "awaiting s1 = awaiting s" "promises s1 = promises s"
      using emit_event_awaiting [of beh ON_ROUTE ?d s] emit_event_frame(7) [of beh ON_ROUTE ?d s] e
      by simp_all
    have "awaiting (snd (call_shell beh OnUpdateRouterContext ?d s1)) = awaiting s"
      "promises (snd (call_shell beh OnUpdateRouterContext ?d s1)) = promises s"
      using s1 by simp_all
    then show ?thesis using Inr e s1 by (cases r) (simp_all add: handle_trigger_def)
  qed
  have intent: "awaiting (snd (handle_new_intent beh ?m s)) = awaiting s
     \<and> length (promises (snd (handle_new_intent beh ?m s))) = length (promises s)"
    by (simp add: handle_new_intent_def split: sum.splits)
  have replies:
    "awaiting (snd (handle_run_console_completed ?i ?m s)) = awaiting s
     \<and> length (promises (snd (handle_run_console_completed ?i ?m s))) = length (promises s)"
    "awaiting (snd (handle_run_completed ?i ?m s)) = awaiting s
     \<and> length (promises (snd (handle_run_completed ?i ?m s))) = length (promises s)"
    "awaiting (snd (handle_pointer_created ?i ?m s)) = awaiting s
     \<and> length (promises (snd (handle_pointer_created ?i ?m s))) = length (promises s)"
    by (auto simp: handle_run_console_completed_def handle_run_completed_def
        handle_pointer_created_def Let_def split: found.splits waiter.splits prod.splits sum.splits
        dest!: postRunResult_frame)
  show ?thesis
    using ready trigger intent replies by (simp add: handleParentMessage_def Let_def)
qed

lemma awaiting_ok_deliver: "awaiting_ok s \<Longrightarrow> awaiting_ok (snd (deliver beh event s))"
proof -
  assume "awaiting_ok s"
  then have "awaiting_ok (snd (handleParentMessage beh event s))"
    using handler_shape [of beh event s] by (simp add: awaiting_ok_def)
  then show ?thesis by (simp add: deliver_def split_beta awaiting_ok_microtasks)
qed

lemma awaiting_ok_operations:
  assumes "awaiting_ok s"
  shows "awaiting_ok (snd (getApi name ver s))"
    and "awaiting_ok (snd (sendIntent intent s))"
    and "awaiting_ok (snd (callService intent s))"
    and "awaiting_ok (snd (runConsoleCommand command s))"
    and "awaiting_ok (snd (setApplication beh shell s))"
    and "awaiting_ok (snd (pushRoute path s))"
    and "awaiting_ok (snd (replaceRoute path s))"
    and "awaiting_ok (api_addEventListener n cb o_flag s)"
    and "awaiting_ok (api_removeEventListener n' cb s)"
  using assms
  by (auto simp: awaiting_ok_def getApi_def registerApiPointer_def sendIntent_def callService_def
      runConsoleCommand_def setApplication_def pushRoute_def replaceRoute_def runCommand_def
      api_addEventListener_def api_removeEventListener_def createDeferred_def nextId_def guid4_def
      postToValuApp_def invoke_def Let_def
      split: option.splits outcome.splits retval.splits)

lemma awaiting_ok_run: "awaiting_ok s \<Longrightarrow> awaiting_ok (snd (run h f ps s))"
  by (auto simp: awaiting_ok_def run_def onApiRunRequest_def createDeferred_def nextId_def
      postToValuApp_def Let_def split: option.splits jsarg.splits)

section \<open>The version of a pointer\<close>

lemma APIPointer_new_result:
  "APIPointer_new n v r rest s = (h, s1) \<Longrightarrow>
     h = length (pointers s) \<and> h < length (pointers s1) \<and> version (pointers s1 ! h) = v
     \<and> apiName (pointers s1 ! h) = n \<and> promises s1 = promises s"
  by (auto simp: APIPointer_new_def guid4_def nth_append)

lemma getApi_rest_binds:
  assumes q: "promise_state s q = None" "q < length (promises s)"
    and e: "getprop m ''error'' = Inr err" "\<not> truthy err"
  shows "\<exists>h. promise_state (getApi_rest n g q (Resolved m) s) q = Some (ResolvedPointer h)
             \<and> h < length (pointers (getApi_rest n g q (Resolved m) s))
             \<and> version (pointers (getApi_rest n g q (Resolved m) s) ! h) = optprop m ''version''
             \<and> apiName (pointers (getApi_rest n g q (Resolved m) s) ! h) = n"
proof -
  obtain h s1 where
    a: "APIPointer_new n (optprop m ''version'') (Val g) [RunRequestClosure] s = (h, s1)"
    by (cases "APIPointer_new n (optprop m ''version'') (Val g) [RunRequestClosure] s")
  from APIPointer_new_result [OF a]
  have r: "h < length (pointers s1)" "version (pointers s1 ! h) = optprop m ''version''"
    "apiName (pointers s1 ! h) = n" "promises s1 = promises s" by blast+
  have g: "getApi_rest n g q (Resolved m) s = settle q (ResolvedPointer h) s1"
    using e a by simp
  have "promise_state s1 q = None" "q < length (promises s1)"
    using q r(4) by (simp_all add: promise_state_def)
  then have "promise_state (settle q (ResolvedPointer h) s1) q = Some (ResolvedPointer h)"
    by (simp add: promise_state_settle)
  then show ?thesis using g r by auto
qed

text \<open>The continuation of \<open>getApi\<close> runs after those that waited before it; they settle other
  promises, so it finds its own promise pending and the awaited one resolved.\<close>

lemma run_settled_binds:
  assumes "run_settled (ws @ [(p, GetApiRest n g q)]) s = (ws', s')"
    and "\<forall>w\<in>set ws. target (snd w) \<noteq> q"
    and "promise_state s q = None" "q < length (promises s)"
    and "promise_state s p = Some (Resolved m)"
    and "getprop m ''error'' = Inr err" "\<not> truthy err"
  shows "\<exists>h. promise_state s' q = Some (ResolvedPointer h) \<and> h < length (pointers s')
             \<and> version (pointers s' ! h) = optprop m ''version'' \<and> apiName (pointers s' ! h) = n"
  using assms
proof (induction ws arbitrary: s ws')
  case Nil
  from getApi_rest_binds [OF Nil.prems(3,4,6,7), of n g] Nil.prems(1,5)
  show ?case by auto
next
  case (Cons w ws)
  obtain p' k where w: "w = (p', k)" by (cases w)
  obtain n' g' q' where k: "k = GetApiRest n' g' q'" by (cases k)
  have ne: "q' \<noteq> q" using Cons.prems(2) w k by auto
  have rest: "\<forall>w\<in>set ws. target (snd w) \<noteq> q" using Cons.prems(2) by simp
  show ?case
  proof (cases "promise_state s p'")
    case None
    with Cons.prems(1) w obtain ws1 where
      r: "run_settled (ws @ [(p, GetApiRest n g q)]) s = (ws1, s')"
      by (auto split: prod.splits)
    from Cons.IH [OF r rest Cons.prems(3,4,5,6,7)] show ?thesis .
  next
    case (Some x)
    let ?s = "getApi_rest n' g' q' x s"
    from Some Cons.prems(1) w k
    have r: "run_settled (ws @ [(p, GetApiRest n g q)]) ?s = (ws', s')" by simp
    have a: "promise_state ?s q = None"
      using getApi_rest_promise_other [OF ne] Cons.prems(3) by simp
    have b: "q < length (promises ?s)" using Cons.prems(4) by simp
    have c: "promise_state ?s p = Some (Resolved m)"
      using getApi_rest_settled [OF Cons.prems(5)] .
    from Cons.IH [OF r rest a b c Cons.prems(6,7)] show ?thesis .
  qed
qed

lemma getApi_connected:
  assumes src: "ep_source (valuApplication s) = Some w"
  shows "fst (getApi name ver s) = Follows (Suc (length (promises s)))
       \<and> promises (snd (getApi name ver s)) = promises s @ [None, None]
       \<and> awaiting (snd (getApi name ver s)) =
           awaiting s @ [(length (promises s),
              GetApiRest name (JStr (''guid-'' @ digits (guid_counter s))) (Suc (length (promises s))))]
       \<and> requests (snd (getApi name ver s)) (to_key (JNum (int (id_counter s))))
           = Some (Deferred (length (promises s)))"
  using src
  by (simp add: getApi_def guid4_def registerApiPointer_def createDeferred_def nextId_def
      postToValuApp_def)

lemma pointer_created_settles:
  assumes "requests s (to_key i) = Some (Deferred p)" "p < length (promises s)" "promises s ! p = None"
  shows "handle_pointer_created i m s =
           (Inr (), s\<lparr>promises := (promises s)[p := Some (Resolved m)],
                      requests := (requests s)(to_key i := None)\<rparr>)"
  using assms by (simp add: handle_pointer_created_def lookup_def settle_def)

text \<open>
  C5. \<open>getApi(name, ver)\<close> on a connected client, answered by an \<open>api:pointer-created\<close> message
  for its request whose payload has no truthy \<open>error\<close>: the promise of \<open>getApi\<close> is resolved
  with a pointer whose version is the \<open>version\<close> of the payload, whatever \<open>ver\<close> was. (The
  state is one in which the waiting continuations settle promises that exist, as they do in
  every state reached from a new client.) For
  \<open>getApi("x", 2)\<close> and the answer \<open>{version: 3}\<close> the version of the pointer is 3.
\<close>

theorem host_assigned_version_wins:
  assumes src: "ep_source (valuApplication s) = Some w"
    and wf: "awaiting_ok s"
    and tgt: "optprop (ev_data event) ''target'' = JStr ''valuApi''"
    and nm: "optprop (ev_data event) ''name'' = JStr ''api:pointer-created''"
    and rid: "to_key (optprop (ev_data event) ''requestId'') = to_key (JNum (int (id_counter s)))"
    and err: "getprop (optprop (ev_data event) ''message'') ''error'' = Inr err" "\<not> truthy err"
  shows "\<exists>q h. fst (getApi name ver s) = Follows q
           \<and> promise_state (snd (deliver beh event (snd (getApi name ver s)))) q = Some (ResolvedPointer h)
           \<and> h < length (pointers (snd (deliver beh event (snd (getApi name ver s)))))
           \<and> apiName (pointers (snd (deliver beh event (snd (getApi name ver s)))) ! h) = name
           \<and> version (pointers (snd (deliver beh event (snd (getApi name ver s)))) ! h)
               = optprop (optprop (ev_data event) ''message'') ''version''"
proof -
  let ?p = "length (promises s)"
  let ?m = "optprop (ev_data event) ''message''"
  let ?g = "JStr (''guid-'' @ digits (guid_counter s))"
  let ?s1 = "snd (getApi name ver s)"
  from getApi_connected [OF src, of name ver]
  have op: "fst (getApi name ver s) = Follows (Suc ?p)"
    and pr: "promises ?s1 = promises s @ [None, None]"
    and aw: "awaiting ?s1 = awaiting s @ [(?p, GetApiRest name ?g (Suc ?p))]"
    and rq: "requests ?s1 (to_key (JNum (int (id_counter s)))) = Some (Deferred ?p)"
    by blast+
  have rq': "requests ?s1 (to_key (optprop (ev_data event) ''requestId'')) = Some (Deferred ?p)"
    using rq rid by simp
  let ?s2 = "?s1\<lparr>promises := (promises ?s1)[?p := Some (Resolved ?m)],
                 requests := (requests ?s1)(to_key (optprop (ev_data event) ''requestId'') := None)\<rparr>"
  have h: "handleParentMessage beh event ?s1 = (Inr (), ?s2)"
    using tgt nm pointer_created_settles [OF rq', of ?m] pr
    by (simp add: handleParentMessage_def Let_def nth_append)
  obtain ws' s' where
    r: "run_settled (awaiting s @ [(?p, GetApiRest name ?g (Suc ?p))]) (?s2\<lparr>awaiting := []\<rparr>)
          = (ws', s')"
    by (cases "run_settled (awaiting s @ [(?p, GetApiRest name ?g (Suc ?p))]) (?s2\<lparr>awaiting := []\<rparr>)")
  have a: "\<forall>k\<in>set (awaiting s). target (snd k) \<noteq> Suc ?p"
    using wf by (auto simp: awaiting_ok_def)
  have b: "promise_state (?s2\<lparr>awaiting := []\<rparr>) (Suc ?p) = None"
    "Suc ?p < length (promises (?s2\<lparr>awaiting := []\<rparr>))"
    using pr by (simp_all add: promise_state_def nth_append)
  have c: "promise_state (?s2\<lparr>awaiting := []\<rparr>) ?p = Some (Resolved ?m)"
    using pr by (simp add: promise_state_def nth_append)
  from run_settled_binds [OF r a b c err] obtain h where
    h': "promise_state s' (Suc ?p) = Some (ResolvedPointer h)" "h < length (pointers s')"
       "version (pointers s' ! h) = optprop ?m ''version''" "apiName (pointers s' ! h) = name"
    by blast
  have d: "snd (deliver beh event ?s1) = s'\<lparr>awaiting := ws' @ awaiting s'\<rparr>"
    using h r aw by (simp add: deliver_def run_microtasks_def)
  have e: "promise_state (s'\<lparr>awaiting := ws' @ awaiting s'\<rparr>) (Suc ?p) = promise_state s' (Suc ?p)"
    by (simp add: promise_state_def)
  show ?thesis
    apply (rule exI [of _ "Suc ?p"])
    apply (rule exI [of _ h])
    using op h' e by (simp add: d)
qed

theorem host_assigned_version_wins_witness:
  "\<exists>q h. fst (getApi (JStr ''x'') (JNum 2) s_ready) = Follows q
       \<and> promise_state s_bound q = Some (ResolvedPointer h)
       \<and> h < length (pointers s_bound)
       \<and> apiName (pointers s_bound ! h) = JStr ''x''
       \<and> version (pointers s_bound ! h) = JNum 3"
proof -
  have src: "ep_source (valuApplication s_ready) = Some 0" by (simp add: s_ready_fields)
  have wf: "awaiting_ok s_ready" by (simp add: awaiting_ok_def s_ready_fields)
  have e: "optprop (ev_data pointer_created_event) ''target'' = JStr ''valuApi''"
    "optprop (ev_data pointer_created_event) ''name'' = JStr ''api:pointer-created''"
    "to_key (optprop (ev_data pointer_created_event) ''requestId'') = to_key (JNum (int (id_counter s_ready)))"
    by (simp_all add: pointer_created_event_def inbound_def s_ready_fields)
  have m: "optprop (ev_data pointer_created_event) ''message'' = JObj [(''version'', JNum 3)]"
    by (simp add: pointer_created_event_def inbound_def)
  have err: "getprop (optprop (ev_data pointer_created_event) ''message'') ''error'' = Inr JUndefined"
    "\<not> truthy JUndefined"
    by (simp_all add: m)
  have v: "optprop (optprop (ev_data pointer_created_event) ''message'') ''version'' = JNum 3"
    by (simp add: m)
  from host_assigned_version_wins [OF src wf e err, of "JStr ''x''" "JNum 2" quiet]
  show ?thesis unfolding v s_bound_def s_requested_def .
qed

end
